theory Spec2Isabelle
  imports Complex_Main
begin

section \<open>Excel unit test runner: snapshot / apply / evaluate / restore\<close>

text \<open>
  A shallow embedding of the two versions of the test runner:
  \<^item> \<^verbatim>\<open>src/scripts/test-runner.js\<close>, which exports \<^verbatim>\<open>runTest\<close> (one protected
    region per test), and
  \<^item> \<^verbatim>\<open>src/unnamed/part_005\<close>, which exports \<^verbatim>\<open>runTestSuite\<close> (one protected region
    per suite, each test run by \<^verbatim>\<open>runTestWithoutProtection\<close>).

  \<^verbatim>\<open>parseCellAddress\<close>, \<^verbatim>\<open>snapshotWorksheetState\<close>, \<^verbatim>\<open>applyInputs\<close>,
  \<^verbatim>\<open>forceRecalculate\<close>, \<^verbatim>\<open>readOutputs\<close> and \<^verbatim>\<open>evaluateAssertions\<close> are the same
  in both files (the second argument that part_005 passes to \<^verbatim>\<open>new Error\<close> is not an
  options object and is ignored by JavaScript), so each is embedded once.
  \<^verbatim>\<open>restoreState\<close> differs between the files and is embedded twice.
\<close>

subsection \<open>JavaScript values and errors\<close>

text \<open>
  Scalars as JSON and the host deliver them. Numbers are idealised as reals; \<open>NaN\<close> is
  kept apart because \<^verbatim>\<open>parseFloat\<close> can produce it: \<^verbatim>\<open>typeof NaN\<close> is \<^verbatim>\<open>'number'\<close>
  and \<^verbatim>\<open>NaN === NaN\<close> is false.
\<close>

datatype scalar = Num real | NaN | Str string | Bool bool | Null | Undefined

fun isNumber :: "scalar \<Rightarrow> bool" where
  "isNumber (Num x) = True"
| "isNumber NaN = True"
| "isNumber v = False"

fun isString :: "scalar \<Rightarrow> bool" where
  "isString (Str s) = True"
| "isString v = False"

fun isBoolean :: "scalar \<Rightarrow> bool" where
  "isBoolean (Bool b) = True"
| "isBoolean v = False"

text \<open>\<^verbatim>\<open>a === b\<close> on scalars: same type and same value, and \<open>NaN\<close> equals nothing.\<close>

definition strictEq :: "scalar \<Rightarrow> scalar \<Rightarrow> bool" where
  "strictEq a b = (a = b \<and> a \<noteq> NaN)"

text \<open>\<^verbatim>\<open>a - b\<close> and \<^verbatim>\<open>Math.abs(a - b)\<close> on values whose \<^verbatim>\<open>typeof\<close> is \<^verbatim>\<open>'number'\<close>.\<close>

fun minus_num :: "scalar \<Rightarrow> scalar \<Rightarrow> scalar" where
  "minus_num (Num a) (Num b) = Num (a - b)"
| "minus_num a b = NaN"

fun abs_num :: "scalar \<Rightarrow> scalar" where
  "abs_num (Num a) = Num \<bar>a\<bar>"
| "abs_num a = NaN"

text \<open>\<^verbatim>\<open>d <= tolerance\<close> for a number \<open>d\<close>: a comparison with \<open>NaN\<close> is false.\<close>

fun le_num :: "scalar \<Rightarrow> real \<Rightarrow> bool" where
  "le_num (Num d) t = (d \<le> t)"
| "le_num d t = False"

text \<open>
  A thrown value. The code only ever reads \<^verbatim>\<open>.message\<close>; \<open>TypeError\<close> is what the
  runtime throws on a property access or call that the value does not support.
\<close>

datatype error = Error string | TypeError string

fun message :: "error \<Rightarrow> string" where
  "message (Error m) = m"
| "message (TypeError m) = m"

subsection \<open>The host document\<close>

text \<open>
  Modelled from the spec: the host document capability interface (Office.js is not part
  of the repository). The calls the runner makes on it are \<^verbatim>\<open>worksheets.getItem\<close>,
  \<^verbatim>\<open>getRange\<close>, \<^verbatim>\<open>load\<close>, the assignments to \<^verbatim>\<open>range.values\<close> and
  \<^verbatim>\<open>range.formulas\<close>, \<^verbatim>\<open>application.calculate\<close> and \<^verbatim>\<open>context.sync\<close>.
\<close>

datatype host_call =
    GetItem string
  | GetRange string string
  | LoadValues string string
  | LoadFormulas string string
  | SetValues string string scalar
  | SetFormulas string string string
  | Calculate
  | Sync

text \<open>What a cell holds: a constant, or a formula whose value the host computes.\<close>

datatype content = Const scalar | Formula string

text \<open>\<^verbatim>\<open>console.log\<close> and \<^verbatim>\<open>console.error\<close> with their text and, where the source
  passes one, the error object.\<close>

datatype console_entry = ConsoleLog string "error option" | ConsoleError string "error option"

text \<open>
  The request context together with everything the run can change or observe:
  \<^item> \<open>cells\<close>: the content of every cell, by sheet name and local address;
  \<^item> \<open>calc\<close>: the host's calculation engine, giving the value of a formula cell from
    the contents of the document (deterministic; displayed values are always those of the
    current contents, so \<open>Calculate\<close> changes nothing but is recorded);
  \<^item> \<open>rejects\<close>: which calls the host refuses, given the calls made so far: \<open>Some m\<close>
    means the call throws an error with message \<open>m\<close> (a missing sheet is a rejected
    \<open>GetItem\<close>); any behaviour of the host is some such function;
  \<^item> \<open>calls\<close>: the calls made on the host so far, oldest first;
  \<^item> \<open>console\<close>: what was written with \<^verbatim>\<open>console.log\<close> and \<^verbatim>\<open>console.error\<close>.

  The host's command queue is collapsed: a write takes effect when it is issued. The runner
  never reads a cell between issuing a write and the next \<open>Sync\<close>.
\<close>

record request_context =
  cells :: "string \<Rightarrow> string \<Rightarrow> content"
  calc :: "(string \<Rightarrow> string \<Rightarrow> content) \<Rightarrow> string \<Rightarrow> string \<Rightarrow> scalar"
  rejects :: "host_call list \<Rightarrow> host_call \<Rightarrow> string option"
  calls :: "host_call list"
  console :: "console_entry list"

text \<open>An asynchronous function of the source: it may change the context, and it either
  returns (\<open>Inr\<close>) or throws (\<open>Inl\<close>).\<close>

type_synonym 'a io = "request_context \<Rightarrow> (error + 'a) \<times> request_context"

definition retIO :: "'a \<Rightarrow> 'a io" where
  "retIO x = (\<lambda>c. (Inr x, c))"

definition throwIO :: "error \<Rightarrow> 'a io" where
  "throwIO e = (\<lambda>c. (Inl e, c))"

definition bindIO :: "'a io \<Rightarrow> ('a \<Rightarrow> 'b io) \<Rightarrow> 'b io" where
  "bindIO m f = (\<lambda>c. case m c of (Inl e, c') \<Rightarrow> (Inl e, c') | (Inr x, c') \<Rightarrow> f x c')"

text \<open>\<^verbatim>\<open>try { m } catch (error) { h error }\<close>\<close>

definition tryCatch :: "'a io \<Rightarrow> (error \<Rightarrow> 'a io) \<Rightarrow> 'a io" where
  "tryCatch m h = (\<lambda>c. case m c of (Inl e, c') \<Rightarrow> h e c' | (Inr x, c') \<Rightarrow> (Inr x, c'))"

text \<open>\<^verbatim>\<open>try { m } finally { f }\<close>: \<open>f\<close> runs on every exit of \<open>m\<close>; the completion of
  \<open>m\<close> stands unless \<open>f\<close> itself throws.\<close>

definition tryFinally :: "'a io \<Rightarrow> unit io \<Rightarrow> 'a io" where
  "tryFinally m f =
     (\<lambda>c. case m c of (r, c') \<Rightarrow>
            (case f c' of (Inl e, c'') \<Rightarrow> (Inl e, c'') | (Inr u, c'') \<Rightarrow> (r, c'')))"

definition consoleLog :: "string \<Rightarrow> error option \<Rightarrow> unit io" where
  "consoleLog m e = (\<lambda>c. (Inr (), c\<lparr>console := console c @ [ConsoleLog m e]\<rparr>))"

definition consoleError :: "string \<Rightarrow> error option \<Rightarrow> unit io" where
  "consoleError m e = (\<lambda>c. (Inr (), c\<lparr>console := console c @ [ConsoleError m e]\<rparr>))"

fun effect :: "host_call \<Rightarrow> (string \<Rightarrow> string \<Rightarrow> content) \<Rightarrow> (string \<Rightarrow> string \<Rightarrow> content)" where
  "effect (SetValues ws a v) cs = cs(ws := (cs ws)(a := Const v))"
| "effect (SetFormulas ws a f) cs = cs(ws := (cs ws)(a := Formula f))"
| "effect call cs = cs"

text \<open>One call on the host: recorded, then refused or carried out.\<close>

definition hostCall :: "host_call \<Rightarrow> unit io" where
  "hostCall call =
     (\<lambda>c. case rejects c (calls c) call of
            Some m \<Rightarrow> (Inl (Error m), c\<lparr>calls := calls c @ [call]\<rparr>)
          | None \<Rightarrow> (Inr (), c\<lparr>calls := calls c @ [call], cells := effect call (cells c)\<rparr>))"

text \<open>\<^verbatim>\<open>range.values[0][0]\<close> and \<^verbatim>\<open>range.formulas[0][0]\<close> of a loaded range; a cell
  without a formula has the empty formula string.\<close>

definition valueOf :: "request_context \<Rightarrow> string \<Rightarrow> string \<Rightarrow> scalar" where
  "valueOf c ws a = (case cells c ws a of Const v \<Rightarrow> v | Formula f \<Rightarrow> calc c (cells c) ws a)"

definition formulaOf :: "request_context \<Rightarrow> string \<Rightarrow> string \<Rightarrow> string" where
  "formulaOf c ws a = (case cells c ws a of Const v \<Rightarrow> [] | Formula f \<Rightarrow> f)"

subsection \<open>Test cases and results\<close>

text \<open>A test file entry. \<open>None\<close> is a property that the JSON object does not have.\<close>

record assertion =
  cell :: string
  equals :: scalar
  tolerance :: "real option"

record test_case =
  name :: "string option"
  inputs :: "(string \<times> scalar) list option"
  assertions :: "assertion list option"

text \<open>\<^verbatim>\<open>{ value, formula }\<close> of one cell in a snapshot; \<open>None\<close> is \<^verbatim>\<open>null\<close>.\<close>

record cell_state =
  cell_value :: scalar
  formula :: "string option"

text \<open>A JavaScript object used as a dictionary with string keys: the entries in insertion
  order. Keys that name a property of \<^verbatim>\<open>Object.prototype\<close> and keys that look like array
  indices (which \<^verbatim>\<open>Object.entries\<close> lists first) are not modelled.\<close>

type_synonym 'v dict = "(string \<times> 'v) list"

text \<open>\<^verbatim>\<open>d[k] = v\<close>\<close>

fun dictPut :: "string \<Rightarrow> 'v \<Rightarrow> 'v dict \<Rightarrow> 'v dict" where
  "dictPut k v [] = [(k, v)]"
| "dictPut k v ((k', v') # d) = (if k = k' then (k', v) # d else (k', v') # dictPut k v d)"

text \<open>\<^verbatim>\<open>if (!d[k]) d[k] = []; d[k].push(v)\<close>\<close>

fun groupAdd :: "string \<Rightarrow> 'v \<Rightarrow> ('v list) dict \<Rightarrow> ('v list) dict" where
  "groupAdd k v [] = [(k, [v])]"
| "groupAdd k v ((k', vs) # d) =
     (if k = k' then (k', vs @ [v]) # d else (k', vs) # groupAdd k v d)"

type_synonym snapshot = "cell_state dict"

text \<open>One entry of \<^verbatim>\<open>assertionResults\<close>. The \<^verbatim>\<open>message\<close> property that the suite version
  adds is left out: its text prints a number.\<close>

record assertion_result =
  r_cell :: string
  expected :: scalar
  actual :: scalar
  r_tolerance :: scalar
  difference :: scalar
  passed :: bool

text \<open>A test result is an object literal whose property names differ between the code
  paths, so it is kept as the list of its properties.\<close>

datatype js_value = JString string | JBool bool | JNull | JResults "assertion_result list"

type_synonym test_result = "js_value dict"

record suite_result =
  results :: "test_result list"
  passedCount :: nat
  totalCount :: nat

subsection \<open>parseCellAddress\<close>

text \<open>\<^verbatim>\<open>s.split(sep)\<close> for a one-character separator.\<close>

fun split :: "char \<Rightarrow> string \<Rightarrow> string list" where
  "split sep [] = [[]]"
| "split sep (x # xs) =
     (if x = sep then [] # split sep xs
      else (case split sep xs of [] \<Rightarrow> [[x]] | p # ps \<Rightarrow> (x # p) # ps))"

record parsed_address =
  worksheetName :: string
  cellAddress :: string

text \<open>The error that \<^verbatim>\<open>parseCellAddress\<close> throws.\<close>

definition invalidAddress :: "string \<Rightarrow> error" where
  \<open>invalidAddress fullAddress =
     Error (''Invalid cell address format: '' @ fullAddress
            @ ''. Expected format: "SheetName!A1"'')\<close>

definition parseCellAddress :: "string \<Rightarrow> error + parsed_address" where
  "parseCellAddress fullAddress =
     (let parts = split (CHR ''!'') fullAddress in
      if length parts \<noteq> 2
      then Inl (invalidAddress fullAddress)
      else Inr \<lparr>worksheetName = parts ! 0, cellAddress = parts ! 1\<rparr>)"

subsection \<open>snapshotWorksheetState\<close>

text \<open>The first loop: parse every address and group the local addresses by sheet.\<close>

fun groupCells :: "string list \<Rightarrow> (string list) dict \<Rightarrow> error + (string list) dict" where
  "groupCells [] cellsByWorksheet = Inr cellsByWorksheet"
| "groupCells (fullAddress # rest) cellsByWorksheet =
     (case parseCellAddress fullAddress of
        Inl e \<Rightarrow> Inl e
      | Inr parsed \<Rightarrow>
          groupCells rest (groupAdd (worksheetName parsed) (cellAddress parsed) cellsByWorksheet))"

text \<open>The parallel arrays \<^verbatim>\<open>fullAddresses\<close> and \<^verbatim>\<open>ranges\<close>, as one list: a range is
  identified by its sheet and local address.\<close>

type_synonym ranges = "(string \<times> string \<times> string) list"

fun loadCells :: "string \<Rightarrow> string list \<Rightarrow> ranges \<Rightarrow> ranges io" where
  "loadCells ws [] rs = retIO rs"
| "loadCells ws (a # rest) rs =
     bindIO (hostCall (GetRange ws a)) (\<lambda>u.
     bindIO (hostCall (LoadValues ws a)) (\<lambda>u.
     bindIO (hostCall (LoadFormulas ws a)) (\<lambda>u.
     loadCells ws rest (rs @ [(ws @ ''!'' @ a, ws, a)]))))"

fun loadSheets :: "(string list) dict \<Rightarrow> ranges \<Rightarrow> ranges io" where
  "loadSheets [] rs = retIO rs"
| \<open>loadSheets ((ws, cellAddresses) # rest) rs =
     bindIO
       (tryCatch
          (bindIO (hostCall (GetItem ws)) (\<lambda>u. loadCells ws cellAddresses rs))
          (\<lambda>error. throwIO (Error (''Failed to access worksheet "'' @ ws @ ''": ''
                                     @ message error))))
       (\<lambda>rs'. loadSheets rest rs')\<close>

text \<open>\<^verbatim>\<open>{ value: range.values[0][0], formula: range.formulas[0][0] || null }\<close>\<close>

definition readState :: "request_context \<Rightarrow> string \<Rightarrow> string \<Rightarrow> cell_state" where
  "readState c ws a =
     \<lparr>cell_value = valueOf c ws a,
      formula = (if formulaOf c ws a = [] then None else Some (formulaOf c ws a))\<rparr>"

fun extractStates :: "request_context \<Rightarrow> ranges \<Rightarrow> snapshot \<Rightarrow> snapshot" where
  "extractStates c [] snapshot = snapshot"
| "extractStates c ((fullAddress, ws, a) # rest) snapshot =
     extractStates c rest (dictPut fullAddress (readState c ws a) snapshot)"

definition snapshotWorksheetState :: "string list \<Rightarrow> snapshot io" where
  "snapshotWorksheetState cellAddresses =
     (case groupCells cellAddresses [] of
        Inl e \<Rightarrow> throwIO e
      | Inr cellsByWorksheet \<Rightarrow>
          bindIO (loadSheets cellsByWorksheet []) (\<lambda>rs.
          bindIO (hostCall Sync) (\<lambda>u.
          (\<lambda>c. (Inr (extractStates c rs []), c)))))"

subsection \<open>applyInputs, forceRecalculate, readOutputs\<close>

text \<open>The grouping loop shared by \<^verbatim>\<open>applyInputs\<close> and \<^verbatim>\<open>restoreState\<close>: each entry of the
  object is parsed and filed under its sheet with its local address.\<close>

fun groupByWorksheet ::
  "'v dict \<Rightarrow> ((string \<times> 'v) list) dict \<Rightarrow> error + ((string \<times> 'v) list) dict" where
  "groupByWorksheet [] byWorksheet = Inr byWorksheet"
| "groupByWorksheet ((fullAddress, v) # rest) byWorksheet =
     (case parseCellAddress fullAddress of
        Inl e \<Rightarrow> Inl e
      | Inr parsed \<Rightarrow>
          groupByWorksheet rest
            (groupAdd (worksheetName parsed) (cellAddress parsed, v) byWorksheet))"

fun writeInputs :: "string \<Rightarrow> (string \<times> scalar) list \<Rightarrow> unit io" where
  "writeInputs ws [] = retIO ()"
| "writeInputs ws ((a, v) # rest) =
     bindIO (hostCall (GetRange ws a)) (\<lambda>u.
     bindIO (hostCall (SetValues ws a v)) (\<lambda>u.
     writeInputs ws rest))"

fun applySheets :: "((string \<times> scalar) list) dict \<Rightarrow> unit io" where
  "applySheets [] = retIO ()"
| \<open>applySheets ((ws, inputList) # rest) =
     bindIO
       (tryCatch
          (bindIO (hostCall (GetItem ws)) (\<lambda>u. writeInputs ws inputList))
          (\<lambda>error. throwIO (Error (''Failed to apply input to worksheet "'' @ ws @ ''": ''
                                     @ message error))))
       (\<lambda>u. applySheets rest)\<close>

definition applyInputs :: "scalar dict \<Rightarrow> unit io" where
  "applyInputs ins =
     (case groupByWorksheet ins [] of
        Inl e \<Rightarrow> throwIO e
      | Inr inputsByWorksheet \<Rightarrow>
          bindIO (applySheets inputsByWorksheet) (\<lambda>u. hostCall Sync))"

text \<open>The fixed 100 ms wait after the sync is not modelled.\<close>

definition forceRecalculate :: "unit io" where
  "forceRecalculate = bindIO (hostCall Calculate) (\<lambda>u. hostCall Sync)"

fun loadOutputs :: "string list \<Rightarrow> ranges \<Rightarrow> ranges io" where
  "loadOutputs [] rs = retIO rs"
| \<open>loadOutputs (cellAddr # rest) rs =
     bindIO
       (tryCatch
          (case parseCellAddress cellAddr of
             Inl e \<Rightarrow> throwIO e
           | Inr parsed \<Rightarrow>
               bindIO (hostCall (GetItem (worksheetName parsed))) (\<lambda>u.
               bindIO (hostCall (GetRange (worksheetName parsed) (cellAddress parsed))) (\<lambda>u.
               bindIO (hostCall (LoadValues (worksheetName parsed) (cellAddress parsed))) (\<lambda>u.
               retIO (rs @ [(cellAddr, worksheetName parsed, cellAddress parsed)])))))
          (\<lambda>error. throwIO (Error (''Failed to read output from cell "'' @ cellAddr @ ''": ''
                                     @ message error))))
       (\<lambda>rs'. loadOutputs rest rs')\<close>

fun extractValues :: "request_context \<Rightarrow> ranges \<Rightarrow> scalar dict \<Rightarrow> scalar dict" where
  "extractValues c [] outputs = outputs"
| "extractValues c ((fullAddress, ws, a) # rest) outputs =
     extractValues c rest (dictPut fullAddress (valueOf c ws a) outputs)"

definition readOutputs :: "string list \<Rightarrow> (scalar dict) io" where
  "readOutputs assertionCells =
     bindIO (loadOutputs assertionCells []) (\<lambda>rs.
     bindIO (hostCall Sync) (\<lambda>u.
     (\<lambda>c. (Inr (extractValues c rs []), c))))"

subsection \<open>evaluateAssertions\<close>

text \<open>\<^verbatim>\<open>outputs[cell]\<close>: \<^verbatim>\<open>undefined\<close> when the object has no such property.\<close>

definition dictGet :: "scalar dict \<Rightarrow> string \<Rightarrow> scalar" where
  "dictGet d k = (case map_of d k of None \<Rightarrow> Undefined | Some v \<Rightarrow> v)"

text \<open>\<^verbatim>\<open>assertion.tolerance || 0\<close>\<close>

definition toleranceOr0 :: "assertion \<Rightarrow> real" where
  "toleranceOr0 a = (case tolerance a of None \<Rightarrow> 0 | Some t \<Rightarrow> t)"

text \<open>The body of the loop of \<^verbatim>\<open>evaluateAssertions\<close>.\<close>

definition evaluateAssertion :: "scalar dict \<Rightarrow> assertion \<Rightarrow> assertion_result" where
  "evaluateAssertion outputs a =
     (let expectedV = equals a;
          tol = toleranceOr0 a;
          actualV = dictGet outputs (cell a);
          (p, d) =
            (if actualV = Undefined \<or> actualV = Null then (False, Null)
             else if isNumber actualV \<and> isNumber expectedV
             then (let d = abs_num (minus_num actualV expectedV) in (le_num d tol, d))
             else (let p = strictEq actualV expectedV in
                   (p, if \<not> p \<and> isNumber actualV \<and> isNumber expectedV
                       then abs_num (minus_num actualV expectedV) else Null)))
      in \<lparr>r_cell = cell a, expected = expectedV, actual = actualV, r_tolerance = Num tol,
          difference = d, passed = p\<rparr>)"

fun evaluateLoop ::
  "scalar dict \<Rightarrow> assertion list \<Rightarrow> bool \<Rightarrow> assertion_result list
     \<Rightarrow> bool \<times> assertion_result list" where
  "evaluateLoop outputs [] allPassed rs = (allPassed, rs)"
| "evaluateLoop outputs (a # rest) allPassed rs =
     (let r = evaluateAssertion outputs a
      in evaluateLoop outputs rest (if \<not> passed r then False else allPassed) (rs @ [r]))"

text \<open>Returns \<^verbatim>\<open>{ allPassed, results }\<close> as a pair.\<close>

definition evaluateAssertions ::
  "scalar dict \<Rightarrow> assertion list \<Rightarrow> bool \<times> assertion_result list" where
  "evaluateAssertions outputs asserts = evaluateLoop outputs asserts True []"

subsection \<open>restoreState\<close>

text \<open>\<^verbatim>\<open>state.formula && state.formula !== ''\<close>\<close>

definition hasFormula :: "cell_state \<Rightarrow> bool" where
  "hasFormula st = (case formula st of None \<Rightarrow> False | Some f \<Rightarrow> f \<noteq> [])"

text \<open>The assignment that restores one cell, the same in both files: to
  \<^verbatim>\<open>range.formulas\<close> if there was a formula and to \<^verbatim>\<open>range.values\<close> otherwise.\<close>

definition restoreWrite :: "string \<Rightarrow> string \<times> cell_state \<Rightarrow> host_call" where
  "restoreWrite ws entry =
     (case formula (snd entry) of
        None \<Rightarrow> SetValues ws (fst entry) (cell_value (snd entry))
      | Some f \<Rightarrow>
          if f \<noteq> [] then SetFormulas ws (fst entry) f
          else SetValues ws (fst entry) (cell_value (snd entry)))"

definition restoreCell :: "string \<Rightarrow> string \<times> cell_state \<Rightarrow> unit io" where
  "restoreCell ws entry =
     bindIO (hostCall (GetRange ws (fst entry))) (\<lambda>u. hostCall (restoreWrite ws entry))"

text \<open>\<^verbatim>\<open>src/scripts/test-runner.js\<close>: one \<^verbatim>\<open>try\<close> around the whole sheet.\<close>

fun restoreCells :: "string \<Rightarrow> (string \<times> cell_state) list \<Rightarrow> unit io" where
  "restoreCells ws [] = retIO ()"
| "restoreCells ws (entry # rest) = bindIO (restoreCell ws entry) (\<lambda>u. restoreCells ws rest)"

fun restoreSheets :: "((string \<times> cell_state) list) dict \<Rightarrow> unit io" where
  "restoreSheets [] = retIO ()"
| \<open>restoreSheets ((ws, cellList) # rest) =
     bindIO
       (tryCatch
          (bindIO (hostCall (GetItem ws)) (\<lambda>u. restoreCells ws cellList))
          (\<lambda>error. consoleError (''Failed to restore cell in worksheet "'' @ ws @ ''": ''
                                    @ message error) None))
       (\<lambda>u. restoreSheets rest)\<close>

definition restoreState :: "snapshot \<Rightarrow> unit io" where
  "restoreState snapshot =
     (case groupByWorksheet snapshot [] of
        Inl e \<Rightarrow> throwIO e
      | Inr cellsByWorksheet \<Rightarrow>
          bindIO (restoreSheets cellsByWorksheet) (\<lambda>u. hostCall Sync))"

text \<open>\<^verbatim>\<open>src/unnamed/part_005\<close>: a \<^verbatim>\<open>try\<close> around each cell inside the \<^verbatim>\<open>try\<close> around the
  sheet.\<close>

fun restoreCells_suite :: "string \<Rightarrow> (string \<times> cell_state) list \<Rightarrow> unit io" where
  "restoreCells_suite ws [] = retIO ()"
| "restoreCells_suite ws (entry # rest) =
     bindIO
       (tryCatch
          (restoreCell ws entry)
          (\<lambda>cellError. consoleError (''Failed to restore cell '' @ fst entry @ '':'')
                                     (Some cellError)))
       (\<lambda>u. restoreCells_suite ws rest)"

fun restoreSheets_suite :: "((string \<times> cell_state) list) dict \<Rightarrow> unit io" where
  "restoreSheets_suite [] = retIO ()"
| \<open>restoreSheets_suite ((ws, cellList) # rest) =
     bindIO
       (tryCatch
          (bindIO (hostCall (GetItem ws)) (\<lambda>u. restoreCells_suite ws cellList))
          (\<lambda>error. consoleError (''Failed to restore worksheet "'' @ ws @ ''":'')
                                 (Some error)))
       (\<lambda>u. restoreSheets_suite rest)\<close>

definition restoreState_suite :: "snapshot \<Rightarrow> unit io" where
  "restoreState_suite snapshot =
     (case groupByWorksheet snapshot [] of
        Inl e \<Rightarrow> throwIO e
      | Inr cellsByWorksheet \<Rightarrow>
          bindIO (restoreSheets_suite cellsByWorksheet) (\<lambda>u. hostCall Sync))"

subsection \<open>runTest (src/scripts/test-runner.js)\<close>

text \<open>\<^verbatim>\<open>allCellAddresses.add(x)\<close> on a \<^verbatim>\<open>Set\<close>, kept in insertion order as
  \<^verbatim>\<open>Array.from\<close> lists it.\<close>

definition setAdd :: "string \<Rightarrow> string list \<Rightarrow> string list" where
  "setAdd x s = (if x \<in> set s then s else s @ [x])"

text \<open>The two \<^verbatim>\<open>for\<close> statements that add the input cells and the assertion cells of one
  test.\<close>

definition addTestAddresses :: "test_case \<Rightarrow> string list \<Rightarrow> string list" where
  "addTestAddresses testCase s =
     (let s1 = (case inputs testCase of None \<Rightarrow> s | Some ins \<Rightarrow> fold setAdd (map fst ins) s)
      in (case assertions testCase of
            None \<Rightarrow> s1
          | Some asserts \<Rightarrow> fold setAdd (map cell asserts) s1))"

text \<open>\<^verbatim>\<open>testCase.name || fallback\<close>\<close>

definition nameOr :: "string option \<Rightarrow> string \<Rightarrow> string" where
  "nameOr n fallback = (case n of None \<Rightarrow> fallback | Some s \<Rightarrow> if s = [] then fallback else s)"

text \<open>\<^verbatim>\<open>if (testCase.inputs && Object.keys(testCase.inputs).length > 0) await applyInputs(...)\<close>\<close>

definition applyInputsIfAny :: "test_case \<Rightarrow> unit io" where
  "applyInputsIfAny testCase =
     (case inputs testCase of
        None \<Rightarrow> retIO ()
      | Some ins \<Rightarrow> if ins \<noteq> [] then applyInputs ins else retIO ())"

text \<open>\<^verbatim>\<open>testCase.assertions.map(a => a.cell)\<close> throws when the test has no assertions
  property.\<close>

definition assertionsOf :: "test_case \<Rightarrow> (assertion list) io" where
  "assertionsOf testCase =
     (case assertions testCase of
        None \<Rightarrow> throwIO (TypeError ''Cannot read properties of undefined (reading map)'')
      | Some asserts \<Rightarrow> retIO asserts)"

text \<open>The body of the \<^verbatim>\<open>try\<close> block of \<^verbatim>\<open>runTest\<close>.\<close>

definition runTestBody :: "test_case \<Rightarrow> test_result io" where
  "runTestBody testCase =
     bindIO (applyInputsIfAny testCase) (\<lambda>u.
     bindIO forceRecalculate (\<lambda>u.
     bindIO (assertionsOf testCase) (\<lambda>asserts.
     bindIO (readOutputs (map cell asserts)) (\<lambda>outputs.
     (let evaluation = evaluateAssertions outputs asserts
      in retIO [(''testName'', JString (nameOr (name testCase) ''Unnamed Test'')),
                (''passed'', JBool (fst evaluation)),
                (''assertionResults'', JResults (snd evaluation))])))))"

text \<open>The \<^verbatim>\<open>finally\<close> block: \<^verbatim>\<open>snapshot\<close> is an object here, so \<^verbatim>\<open>if (snapshot)\<close> holds.\<close>

definition restoreAfterTest :: "snapshot \<Rightarrow> unit io" where
  "restoreAfterTest snapshot =
     tryCatch (restoreState snapshot)
       (\<lambda>restoreError. consoleError (''Warning: Failed to restore state: ''
                                       @ message restoreError) None)"

text \<open>\<^verbatim>\<open>Excel.run\<close> supplies the context and runs the function it is given.\<close>

definition runTest :: "test_case \<Rightarrow> test_result io" where
  "runTest testCase =
     bindIO
       (tryCatch (snapshotWorksheetState (addTestAddresses testCase []))
          (\<lambda>error. throwIO (Error (''Failed to snapshot state: '' @ message error))))
       (\<lambda>snapshot. tryFinally (runTestBody testCase) (restoreAfterTest snapshot))"

subsection \<open>runTestWithoutProtection and runTestSuite (src/unnamed/part_005)\<close>

text \<open>\<^verbatim>\<open>s.toLowerCase()\<close>, on the ASCII letters. No character outside ASCII lower-cases to a
  letter of \<^verbatim>\<open>'true'\<close>, the only string the result is compared with.\<close>

definition toLowerChar :: "char \<Rightarrow> char" where
  "toLowerChar ch =
     (let n = (of_char ch :: nat) in if 65 \<le> n \<and> n \<le> 90 then char_of (n + 32) else ch)"

definition toLowerCase :: "string \<Rightarrow> string" where
  "toLowerCase s = map toLowerChar s"

text \<open>The conversion of the expected value to the type of the actual value. \<open>parseFloat\<close>
  is the JavaScript builtin, taken as a parameter; it returns a number or \<open>NaN\<close>.\<close>

definition convertExpected :: "(string \<Rightarrow> scalar) \<Rightarrow> scalar \<Rightarrow> scalar \<Rightarrow> error + scalar" where
  "convertExpected parseFloat actualValue expectedValue =
     (if isNumber actualValue \<and> isString expectedValue
      then (case expectedValue of Str s \<Rightarrow> Inr (parseFloat s) | v \<Rightarrow> Inr v)
      else if isBoolean actualValue
      then (case expectedValue of
              Str s \<Rightarrow> Inr (Bool (toLowerCase s = ''true''))
            | Null \<Rightarrow> Inl (TypeError ''Cannot read properties of null (reading toLowerCase)'')
            | Undefined \<Rightarrow>
                Inl (TypeError ''Cannot read properties of undefined (reading toLowerCase)'')
            | v \<Rightarrow> Inl (TypeError ''expectedValue.toLowerCase is not a function''))
      else Inr expectedValue)"

text \<open>The loop of \<^verbatim>\<open>runTestWithoutProtection\<close> that evaluates the assertions.\<close>

fun evaluateUnprotected ::
  "(string \<Rightarrow> scalar) \<Rightarrow> scalar dict \<Rightarrow> assertion list \<Rightarrow> assertion_result list
     \<Rightarrow> error + assertion_result list" where
  "evaluateUnprotected parseFloat outputs [] rs = Inr rs"
| "evaluateUnprotected parseFloat outputs (a # rest) rs =
     (let actualValue = dictGet outputs (cell a) in
      case convertExpected parseFloat actualValue (equals a) of
        Inl e \<Rightarrow> Inl e
      | Inr expectedValue \<Rightarrow>
          (let p = strictEq actualValue expectedValue;
               numeric = isNumber actualValue \<and> isNumber expectedValue
           in evaluateUnprotected parseFloat outputs rest
                (rs @ [\<lparr>r_cell = cell a, expected = expectedValue, actual = actualValue,
                         r_tolerance = (if numeric then Num (toleranceOr0 a) else Null),
                         difference =
                           (if numeric then minus_num actualValue expectedValue else Null),
                         passed = p\<rparr>])))"

definition runTestWithoutProtection :: "(string \<Rightarrow> scalar) \<Rightarrow> test_case \<Rightarrow> test_result io" where
  "runTestWithoutProtection parseFloat testCase =
     bindIO (applyInputsIfAny testCase) (\<lambda>u.
     bindIO forceRecalculate (\<lambda>u.
     bindIO (assertionsOf testCase) (\<lambda>asserts.
     bindIO (readOutputs (map cell asserts)) (\<lambda>outputs.
     (case evaluateUnprotected parseFloat outputs asserts [] of
        Inl e \<Rightarrow> throwIO e
      | Inr rs \<Rightarrow>
          retIO [(''name'', JString (nameOr (name testCase) ''Unnamed Test'')),
                 (''passed'', JBool (list_all passed rs)),
                 (''assertionResults'', JResults rs),
                 (''error'', JNull)])))))"

text \<open>Decimal digits of a number, as a template literal prints \<^verbatim>\<open>i + 1\<close>.\<close>

fun showNat :: "nat \<Rightarrow> string" where
  "showNat n =
     (if n < 10 then [char_of (48 + n)] else showNat (n div 10) @ [char_of (48 + n mod 10)])"

text \<open>\<^verbatim>\<open>result.passed\<close> used as a condition.\<close>

definition resultPassed :: "test_result \<Rightarrow> bool" where
  "resultPassed r = (map_of r ''passed'' = Some (JBool True))"

text \<open>The object pushed by the \<^verbatim>\<open>catch\<close> block of the loop.\<close>

definition errorResult :: "string \<Rightarrow> error \<Rightarrow> test_result" where
  "errorResult testName e =
     [(''testName'', JString testName), (''passed'', JBool False),
      (''assertionResults'', JResults []), (''error'', JString (message e))]"

text \<open>The line logged before each test.\<close>

definition runningMessage :: "nat \<Rightarrow> nat \<Rightarrow> test_case \<Rightarrow> string" where
  "runningMessage n i testCase =
     ''Running test '' @ showNat (i + 1) @ ''/'' @ showNat n @ '': ''
       @ nameOr (name testCase) ''Unnamed Test''"

text \<open>The body of the \<^verbatim>\<open>for\<close> loop over the tests, at index \<open>i\<close>; \<open>n\<close> is
  \<^verbatim>\<open>testCases.length\<close>. The accumulators are \<^verbatim>\<open>allResults\<close> and \<^verbatim>\<open>passedCount\<close>.\<close>

definition suiteStep ::
  "(string \<Rightarrow> scalar) \<Rightarrow> nat \<Rightarrow> nat \<Rightarrow> test_case \<Rightarrow> test_result list \<times> nat
     \<Rightarrow> (test_result list \<times> nat) io" where
  "suiteStep parseFloat n i testCase acc =
     bindIO (consoleLog (runningMessage n i testCase) None) (\<lambda>u.
     tryCatch
       (bindIO (runTestWithoutProtection parseFloat testCase) (\<lambda>result.
          retIO (fst acc @ [result], if resultPassed result then snd acc + 1 else snd acc)))
       (\<lambda>error.
          (let testName = nameOr (name testCase) (''Test '' @ showNat (i + 1)) in
           bindIO (consoleLog (''Error running test '' @ testName @ '':'') (Some error)) (\<lambda>u.
           retIO (fst acc @ [errorResult testName error], snd acc)))))"

fun runTests ::
  "(string \<Rightarrow> scalar) \<Rightarrow> nat \<Rightarrow> nat \<Rightarrow> test_case list \<Rightarrow> test_result list \<times> nat
     \<Rightarrow> (test_result list \<times> nat) io" where
  "runTests parseFloat n i [] acc = retIO acc"
| "runTests parseFloat n i (testCase # rest) acc =
     bindIO (suiteStep parseFloat n i testCase acc) (\<lambda>acc'.
     runTests parseFloat n (i + 1) rest acc')"

text \<open>The suite-level snapshot: a failure is logged and leaves \<^verbatim>\<open>snapshot\<close> at
  \<^verbatim>\<open>null\<close>.\<close>

definition snapshotSuite :: "test_case list \<Rightarrow> (snapshot option) io" where
  "snapshotSuite testCases =
     tryCatch
       (bindIO (snapshotWorksheetState (fold addTestAddresses testCases [])) (\<lambda>snap.
          retIO (Some snap)))
       (\<lambda>error.
          bindIO (consoleError ''Warning: Failed to create suite-level snapshot:''
                    (Some error)) (\<lambda>u.
          retIO None))"

text \<open>The \<^verbatim>\<open>finally\<close> block of the suite: nothing is restored when there is no snapshot.\<close>

definition restoreAfterSuite :: "snapshot option \<Rightarrow> unit io" where
  "restoreAfterSuite snapshot =
     (case snapshot of
        None \<Rightarrow> retIO ()
      | Some snap \<Rightarrow>
          tryCatch
            (bindIO (restoreState_suite snap) (\<lambda>u.
               consoleLog ''State restored successfully'' None))
            (\<lambda>restoreError. consoleError ''Failed to restore state:'' (Some restoreError)))"

definition runTestSuite :: "(string \<Rightarrow> scalar) \<Rightarrow> test_case list \<Rightarrow> suite_result io" where
  "runTestSuite parseFloat testCases =
     bindIO (snapshotSuite testCases) (\<lambda>snapshot.
     tryFinally
       (bindIO (runTests parseFloat (length testCases) 0 testCases ([], 0)) (\<lambda>acc.
          retIO \<lparr>results = fst acc, passedCount = snd acc,
                 totalCount = length testCases\<rparr>))
       (restoreAfterSuite snapshot))"

subsection \<open>Vocabulary for the statements\<close>

text \<open>The calls that only look at the document.\<close>

fun isRead :: "host_call \<Rightarrow> bool" where
  "isRead (SetValues ws a v) = False"
| "isRead (SetFormulas ws a f) = False"
| "isRead Calculate = False"
| "isRead call = True"

text \<open>The calls that change the content of cell \<open>a\<close> of sheet \<open>ws\<close>.\<close>

fun writesTo :: "string \<Rightarrow> string \<Rightarrow> host_call \<Rightarrow> bool" where
  "writesTo ws a (SetValues ws' a' v) = (ws = ws' \<and> a = a')"
| "writesTo ws a (SetFormulas ws' a' f) = (ws = ws' \<and> a = a')"
| "writesTo ws a call = False"

text \<open>From \<open>c\<close> to \<open>c'\<close> the host is the same, the calls made in between all satisfy \<open>P\<close>,
  and a cell that none of them writes to is unchanged.\<close>

definition step :: "(host_call \<Rightarrow> bool) \<Rightarrow> request_context \<Rightarrow> request_context \<Rightarrow> bool" where
  "step P c c' \<longleftrightarrow>
     rejects c' = rejects c \<and> calc c' = calc c \<and>
     (\<exists>cs. calls c' = calls c @ cs \<and> (\<forall>x\<in>set cs. P x) \<and>
           (\<forall>ws a. (\<forall>x\<in>set cs. \<not> writesTo ws a x) \<longrightarrow> cells c' ws a = cells c ws a))"

definition keeps :: "(host_call \<Rightarrow> bool) \<Rightarrow> 'a io \<Rightarrow> bool" where
  "keeps P m \<longleftrightarrow> (\<forall>c. step P c (snd (m c)))"

text \<open>The host accepts every call from now on.\<close>

definition accepting :: "request_context \<Rightarrow> bool" where
  "accepting c \<longleftrightarrow> (\<forall>h call. rejects c (calls c @ h) call = None)"

text \<open>The context after the calls \<open>cs\<close> have all been made and carried out.\<close>

definition played :: "host_call list \<Rightarrow> request_context \<Rightarrow> request_context" where
  "played cs c = c\<lparr>calls := calls c @ cs, cells := fold effect cs (cells c)\<rparr>"

text \<open>What a write leaves in the cell.\<close>

fun written :: "host_call \<Rightarrow> content" where
  "written (SetValues ws a v) = Const v"
| "written (SetFormulas ws a f) = Formula f"
| "written call = Const Undefined"

text \<open>The calls of a restore that nothing interrupts, sheet by sheet.\<close>

definition sheetTrace :: "string \<times> (string \<times> cell_state) list \<Rightarrow> host_call list" where
  "sheetTrace g =
     GetItem (fst g) # concat (map (\<lambda>entry. [GetRange (fst g) (fst entry),
                                                 restoreWrite (fst g) entry]) (snd g))"

definition restoreTrace :: "((string \<times> cell_state) list) dict \<Rightarrow> host_call list" where
  "restoreTrace byWorksheet = concat (map sheetTrace byWorksheet) @ [Sync]"

text \<open>The pairs of sheet and item that a grouping holds.\<close>

definition entriesOf :: "('v list) dict \<Rightarrow> (string \<times> 'v) set" where
  "entriesOf g = {(ws, x). \<exists>xs. (ws, xs) \<in> set g \<and> x \<in> set xs}"

text \<open>The calls that running one test may make: reads, the recalculation, and writes of
  the test's input values to the cells its input addresses parse to.\<close>

definition bodyCall :: "test_case \<Rightarrow> host_call \<Rightarrow> bool" where
  "bodyCall testCase call \<longleftrightarrow>
     isRead call \<or> call = Calculate \<or>
     (\<exists>ws a v fa ins. call = SetValues ws a v \<and> inputs testCase = Some ins \<and> (fa, v) \<in> set ins \<and>
        parseCellAddress fa = Inr \<lparr>worksheetName = ws, cellAddress = a\<rparr>)"

text \<open>The keys of a test's inputs and the cells of its assertions.\<close>

definition inputKeys :: "test_case \<Rightarrow> string set" where
  "inputKeys testCase = (case inputs testCase of None \<Rightarrow> {} | Some ins \<Rightarrow> fst ` set ins)"

definition assertionCells :: "test_case \<Rightarrow> string set" where
  "assertionCells testCase =
     (case assertions testCase of None \<Rightarrow> {} | Some asserts \<Rightarrow> cell ` set asserts)"

text \<open>Reads, recalculations, and writes of values to cells that addresses in \<open>A\<close> parse
  to.\<close>

definition withinCells :: "string set \<Rightarrow> host_call \<Rightarrow> bool" where
  "withinCells A call \<longleftrightarrow>
     isRead call \<or> call = Calculate \<or>
     (\<exists>ws a v fa. call = SetValues ws a v \<and> fa \<in> A \<and>
        parseCellAddress fa = Inr \<lparr>worksheetName = ws, cellAddress = a\<rparr>)"

text \<open>The context in which \<^verbatim>\<open>runTestWithoutProtection\<close> is called for test \<open>i\<close> of a
  suite whose loop starts in \<open>c\<close>: after the tests before it have run and the test has been
  announced.\<close>

definition testContext ::
  "(string \<Rightarrow> scalar) \<Rightarrow> nat \<Rightarrow> test_case list \<Rightarrow> nat \<Rightarrow> request_context \<Rightarrow> request_context" where
  "testContext parseFloat n testCases i c =
     (let c' = snd (runTests parseFloat n 0 (take i testCases) ([], 0) c)
      in c'\<lparr>console := console c' @ [ConsoleLog (runningMessage n i (testCases ! i)) None]\<rparr>)"

subsection \<open>Documents and tests used as examples\<close>

text \<open>Stands for \<^verbatim>\<open>parseFloat\<close> in examples that never call it.\<close>

definition parseFloatStub :: "string \<Rightarrow> scalar" where
  "parseFloatStub s = NaN"

definition blankDocument :: request_context where
  "blankDocument =
     \<lparr>cells = (\<lambda>ws a. Const (Num 0)), calc = (\<lambda>cs ws a. Num 0),
      rejects = (\<lambda>h call. None), calls = [], console = []\<rparr>"

definition outputDocument :: request_context where
  "outputDocument =
     \<lparr>cells = (\<lambda>ws a. if ws = ''Outputs'' \<and> a = ''E12'' then Const (Num 100.5)
                       else Const (Num 0)),
      calc = (\<lambda>cs ws a. Num 0), rejects = (\<lambda>h call. None), calls = [], console = []\<rparr>"

definition toleranceTest :: test_case where
  "toleranceTest =
     \<lparr>name = Some ''within tolerance'', inputs = None,
      assertions = Some [\<lparr>cell = ''Outputs!E12'', equals = Num 100, tolerance = Some 0.5\<rparr>]\<rparr>"

definition exactTest :: test_case where
  "exactTest =
     \<lparr>name = Some ''exact'', inputs = None,
      assertions = Some [\<lparr>cell = ''Outputs!E12'', equals = Num 100.5, tolerance = None\<rparr>]\<rparr>"

definition typoTest :: test_case where
  "typoTest =
     \<lparr>name = Some ''typo'', inputs = Some [(''Sheet1!A1'', Num 5)],
      assertions = Some [\<lparr>cell = ''Sheet1B2'', equals = Num 1, tolerance = None\<rparr>]\<rparr>"

definition twoCells :: snapshot where
  "twoCells =
     [(''Sheet1!A1'', \<lparr>cell_value = Num 1, formula = None\<rparr>),
      (''Sheet1!B1'', \<lparr>cell_value = Num 2, formula = None\<rparr>)]"

definition lockedDocument :: request_context where
  "lockedDocument =
     \<lparr>cells = (\<lambda>ws a. Const (Num 0)), calc = (\<lambda>cs ws a. Num 0),
      rejects = (\<lambda>h call. if call = GetRange ''Sheet1'' ''A1'' then Some ''locked'' else None),
      calls = [], console = []\<rparr>"

definition booleanDocument :: request_context where
  "booleanDocument =
     \<lparr>cells = (\<lambda>ws a. if ws = ''Flags'' \<and> a = ''A1'' then Const (Bool True) else Const (Num 0)),
      calc = (\<lambda>cs ws a. Num 0), rejects = (\<lambda>h call. None), calls = [], console = []\<rparr>"

definition booleanTest :: test_case where
  "booleanTest =
     \<lparr>name = Some ''flag'', inputs = None,
      assertions = Some [\<lparr>cell = ''Flags!A1'', equals = Bool True, tolerance = None\<rparr>]\<rparr>"

definition inputTest :: test_case where
  "inputTest =
     \<lparr>name = Some ''input'', inputs = Some [(''Sheet1!A1'', Num 5)],
      assertions = Some [\<lparr>cell = ''Sheet1!B1'', equals = Num 0, tolerance = None\<rparr>]\<rparr>"

text \<open>A document in which \<open>Sheet1!A1\<close> can no longer be written once the document has
  been recalculated.\<close>

definition refusingDocument :: request_context where
  "refusingDocument =
     \<lparr>cells = (\<lambda>ws a. Const (Num 0)), calc = (\<lambda>cs ws a. Num 0),
      rejects = (\<lambda>h call. if Calculate \<in> set h \<and> writesTo ''Sheet1'' ''A1'' call
                           then Some ''refused'' else None),
      calls = [], console = []\<rparr>"

definition formulaSnapshot :: snapshot where
  "formulaSnapshot =
     [(''Sheet1!A1'', \<lparr>cell_value = Num 3, formula = Some ''=B1+1''\<rparr>),
      (''Sheet1!B1'', \<lparr>cell_value = Num 2, formula = None\<rparr>)]"

section \<open>Properties\<close>

subsection \<open>Running the combinators\<close>

lemma retIO_apply [simp]: "retIO x c = (Inr x, c)"
  by (simp add: retIO_def)

lemma throwIO_apply [simp]: "throwIO e c = (Inl e, c)"
  by (simp add: throwIO_def)

lemma consoleLog_apply [simp]: "consoleLog m e c = (Inr (), c\<lparr>console := console c @ [ConsoleLog m e]\<rparr>)"
  by (simp add: consoleLog_def)

lemma consoleError_apply [simp]:
  "consoleError m e c = (Inr (), c\<lparr>console := console c @ [ConsoleError m e]\<rparr>)"
  by (simp add: consoleError_def)

lemma bindIO_apply:
  "bindIO m f c = (case m c of (Inl e, c') \<Rightarrow> (Inl e, c') | (Inr x, c') \<Rightarrow> f x c')"
  by (simp add: bindIO_def)

lemma bindIO_Inr: "m c = (Inr x, c') \<Longrightarrow> bindIO m f c = f x c'"
  by (simp add: bindIO_def)

lemma bindIO_Inl: "m c = (Inl e, c') \<Longrightarrow> bindIO m f c = (Inl e, c')"
  by (simp add: bindIO_def)

lemma tryCatch_apply:
  "tryCatch m h c = (case m c of (Inl e, c') \<Rightarrow> h e c' | (Inr x, c') \<Rightarrow> (Inr x, c'))"
  by (simp add: tryCatch_def)

lemma tryCatch_Inr: "m c = (Inr x, c') \<Longrightarrow> tryCatch m h c = (Inr x, c')"
  by (simp add: tryCatch_def)

lemma tryCatch_Inl: "m c = (Inl e, c') \<Longrightarrow> tryCatch m h c = h e c'"
  by (simp add: tryCatch_def)

lemma tryFinally_apply:
  "tryFinally m f c =
     (case m c of (r, c') \<Rightarrow>
        (case f c' of (Inl e, c'') \<Rightarrow> (Inl e, c'') | (Inr u, c'') \<Rightarrow> (r, c'')))"
  by (simp add: tryFinally_def)

lemma hostCall_apply:
  "hostCall call c =
     (case rejects c (calls c) call of
        Some m \<Rightarrow> (Inl (Error m), c\<lparr>calls := calls c @ [call]\<rparr>)
      | None \<Rightarrow> (Inr (), c\<lparr>calls := calls c @ [call], cells := effect call (cells c)\<rparr>))"
  by (simp add: hostCall_def)

subsection \<open>What an action may do to the context\<close>

lemma step_refl: "step P c c"
  by (simp add: step_def)

lemma step_trans:
  assumes "step P c c'" and "step P c' c''"
  shows "step P c c''"
proof -
  from assms(1) obtain cs where cs: "calls c' = calls c @ cs" "\<forall>x\<in>set cs. P x"
    "\<forall>ws a. (\<forall>x\<in>set cs. \<not> writesTo ws a x) \<longrightarrow> cells c' ws a = cells c ws a"
    and r1: "rejects c' = rejects c" "calc c' = calc c"
    unfolding step_def by blast
  from assms(2) obtain ds where ds: "calls c'' = calls c' @ ds" "\<forall>x\<in>set ds. P x"
    "\<forall>ws a. (\<forall>x\<in>set ds. \<not> writesTo ws a x) \<longrightarrow> cells c'' ws a = cells c' ws a"
    and r2: "rejects c'' = rejects c'" "calc c'' = calc c'"
    unfolding step_def by blast
  have "calls c'' = calls c @ (cs @ ds)" using cs(1) ds(1) by simp
  moreover have "\<forall>x\<in>set (cs @ ds). P x" using cs(2) ds(2) by auto
  moreover have "\<forall>ws a. (\<forall>x\<in>set (cs @ ds). \<not> writesTo ws a x) \<longrightarrow> cells c'' ws a = cells c ws a"
    using cs(3) ds(3) by auto
  ultimately show ?thesis
    unfolding step_def using r1 r2 by metis
qed

lemma step_mono: "step P c c' \<Longrightarrow> (\<And>x. P x \<Longrightarrow> Q x) \<Longrightarrow> step Q c c'"
  unfolding step_def by blast

lemma step_console: "step P c (c\<lparr>console := k\<rparr>)"
  by (simp add: step_def)

lemma effect_other: "\<not> writesTo ws a call \<Longrightarrow> effect call cs ws a = cs ws a"
  by (cases call) auto

lemma step_hostCall: "P call \<Longrightarrow> step P c (snd (hostCall call c))"
  by (auto simp: step_def hostCall_def effect_other split: option.splits)

lemma keeps_mono: "keeps P m \<Longrightarrow> (\<And>x. P x \<Longrightarrow> Q x) \<Longrightarrow> keeps Q m"
  unfolding keeps_def using step_mono by blast

lemma keeps_retIO [simp]: "keeps P (retIO x)"
  by (simp add: keeps_def step_refl)

lemma keeps_throwIO [simp]: "keeps P (throwIO e)"
  by (simp add: keeps_def step_refl)

lemma keeps_consoleLog [simp]: "keeps P (consoleLog m e)"
  by (simp add: keeps_def step_console)

lemma keeps_consoleError [simp]: "keeps P (consoleError m e)"
  by (simp add: keeps_def step_console)

lemma keeps_hostCall: "P call \<Longrightarrow> keeps P (hostCall call)"
  by (simp add: keeps_def step_hostCall)

lemma keeps_bindIO:
  assumes "keeps P m" and "\<And>x. keeps P (f x)"
  shows "keeps P (bindIO m f)"
  unfolding keeps_def
proof
  fix c
  obtain r c' where m: "m c = (r, c')" by (cases "m c")
  have s1: "step P c c'" using assms(1) m unfolding keeps_def by (metis snd_conv)
  show "step P c (snd (bindIO m f c))"
  proof (cases r)
    case (Inl e)
    then show ?thesis using m s1 by (simp add: bindIO_def)
  next
    case (Inr x)
    have "step P c' (snd (f x c'))" using assms(2) unfolding keeps_def by blast
    then show ?thesis using m s1 Inr by (auto simp: bindIO_def intro: step_trans)
  qed
qed

lemma keeps_tryCatch:
  assumes "keeps P m" and "\<And>e. keeps P (h e)"
  shows "keeps P (tryCatch m h)"
  unfolding keeps_def
proof
  fix c
  obtain r c' where m: "m c = (r, c')" by (cases "m c")
  have s1: "step P c c'" using assms(1) m unfolding keeps_def by (metis snd_conv)
  show "step P c (snd (tryCatch m h c))"
  proof (cases r)
    case (Inr x)
    then show ?thesis using m s1 by (simp add: tryCatch_def)
  next
    case (Inl e)
    have "step P c' (snd (h e c'))" using assms(2) unfolding keeps_def by blast
    then show ?thesis using m s1 Inl by (auto simp: tryCatch_def intro: step_trans)
  qed
qed

lemma keeps_tryFinally:
  assumes "keeps P m" and "keeps P f"
  shows "keeps P (tryFinally m f)"
  unfolding keeps_def
proof
  fix c
  obtain r c' where m: "m c = (r, c')" by (cases "m c")
  obtain u c'' where f: "f c' = (u, c'')" by (cases "f c'")
  have "step P c c'" using assms(1) m unfolding keeps_def by (metis snd_conv)
  moreover have "step P c' c''" using assms(2) f unfolding keeps_def by (metis snd_conv)
  ultimately have "step P c c''" by (rule step_trans)
  then show "step P c (snd (tryFinally m f c))"
    using m f by (cases u) (simp_all add: tryFinally_def)
qed

subsection \<open>Splitting and parsing addresses\<close>

lemma split_nonempty: "split sep s \<noteq> []"
  by (induction s) (auto split: list.splits)

lemma length_split: "length (split sep s) = Suc (count_list s sep)"
  by (induction s) (auto split: list.splits simp: split_nonempty)

lemma split_one: "split sep s = [q] \<Longrightarrow> s = q"
proof (induction s arbitrary: q)
  case Nil
  then show ?case by simp
next
  case (Cons x xs)
  show ?case
  proof (cases "x = sep")
    case True
    with Cons.prems show ?thesis by (simp add: split_nonempty)
  next
    case False
    with Cons.prems obtain p where "split sep xs = [p]" "q = x # p"
      by (auto split: list.splits simp: split_nonempty)
    with Cons.IH show ?thesis by simp
  qed
qed

lemma split_two: "split sep s = [p, q] \<Longrightarrow> s = p @ sep # q"
proof (induction s arbitrary: p)
  case Nil
  then show ?case by simp
next
  case (Cons x xs)
  show ?case
  proof (cases "x = sep")
    case True
    with Cons.prems have "p = []" "split sep xs = [q]" by auto
    then show ?thesis using True split_one by fastforce
  next
    case False
    with Cons.prems obtain p' where "split sep xs = [p', q]" "p = x # p'"
      by (auto split: list.splits simp: split_nonempty)
    with Cons.IH show ?thesis by simp
  qed
qed

lemma parse_Inl: "parseCellAddress fa = Inl e \<Longrightarrow> e = invalidAddress fa"
  by (simp add: parseCellAddress_def Let_def split: if_splits)

lemma parse_roundtrip:
  assumes "parseCellAddress fa = Inr p"
  shows "fa = worksheetName p @ ''!'' @ cellAddress p"
proof -
  from assms have len: "length (split (CHR ''!'') fa) = 2"
    and p: "p = \<lparr>worksheetName = split (CHR ''!'') fa ! 0, cellAddress = split (CHR ''!'') fa ! 1\<rparr>"
    by (auto simp: parseCellAddress_def Let_def split: if_splits)
  from len obtain x y where xy: "split (CHR ''!'') fa = [x, y]"
    by (cases "split (CHR ''!'') fa"; cases "tl (split (CHR ''!'') fa)") auto
  then have "fa = x @ CHR ''!'' # y" by (rule split_two)
  with p xy show ?thesis by simp
qed

lemma parse_malformed:
  "count_list fa (CHR ''!'') \<noteq> 1 \<longleftrightarrow> parseCellAddress fa = Inl (invalidAddress fa)"
  by (simp add: parseCellAddress_def Let_def length_split)

lemma parse_cases:
  obtains (bad) "parseCellAddress fa = Inl (invalidAddress fa)"
  | (good) ws a where "parseCellAddress fa = Inr \<lparr>worksheetName = ws, cellAddress = a\<rparr>"
      "fa = ws @ ''!'' @ a"
proof (cases "parseCellAddress fa")
  case (Inl e)
  then show ?thesis using parse_Inl bad by blast
next
  case (Inr p)
  then show ?thesis using parse_roundtrip [OF Inr] good [of "worksheetName p" "cellAddress p"]
    by simp
qed

subsection \<open>Grouping by sheet\<close>

lemma entriesOf_Nil [simp]: "entriesOf [] = {}"
  by (simp add: entriesOf_def)

lemma entriesOf_Cons: "entriesOf ((ws, xs) # g) = (Pair ws ` set xs) \<union> entriesOf g"
  by (auto simp: entriesOf_def)

lemma entriesOf_groupAdd: "entriesOf (groupAdd k v g) = insert (k, v) (entriesOf g)"
proof (induction g)
  case Nil
  then show ?case by (simp add: entriesOf_Cons)
next
  case (Cons kv g)
  obtain k' vs where kv: "kv = (k', vs)" by (cases kv)
  show ?case
  proof (cases "k = k'")
    case True
    then show ?thesis using kv by (auto simp: entriesOf_Cons)
  next
    case False
    then show ?thesis using kv Cons.IH by (auto simp: entriesOf_Cons)
  qed
qed

lemma groupCells_entries:
  "groupCells as g = Inr g' \<Longrightarrow>
     entriesOf g' = entriesOf g \<union> {(ws, a). ws @ ''!'' @ a \<in> set as \<and>
        parseCellAddress (ws @ ''!'' @ a) = Inr \<lparr>worksheetName = ws, cellAddress = a\<rparr>}"
proof (induction as arbitrary: g)
  case Nil
  then show ?case by simp
next
  case (Cons fa rest)
  show ?case
  proof (cases fa rule: parse_cases)
    case bad
    with Cons.prems show ?thesis by simp
  next
    case (good ws a)
    with Cons.prems have "groupCells rest (groupAdd ws a g) = Inr g'" by simp
    from Cons.IH [OF this] good show ?thesis
      by (auto simp: entriesOf_groupAdd)
  qed
qed

lemma groupCells_all_good:
  "groupCells as g = Inr g' \<Longrightarrow> fa \<in> set as \<Longrightarrow> \<exists>p. parseCellAddress fa = Inr p"
proof (induction as arbitrary: g)
  case Nil
  then show ?case by simp
next
  case (Cons x rest)
  then show ?case by (cases x rule: parse_cases) auto
qed

lemma groupCells_bad:
  "\<exists>fa\<in>set as. parseCellAddress fa = Inl (invalidAddress fa) \<Longrightarrow>
     \<exists>bad\<in>set as. count_list bad (CHR ''!'') \<noteq> 1 \<and> groupCells as g = Inl (invalidAddress bad)"
proof (induction as arbitrary: g)
  case Nil
  then show ?case by simp
next
  case (Cons x rest)
  show ?case
  proof (cases x rule: parse_cases)
    case bad
    then show ?thesis using parse_malformed [of x] by simp
  next
    case (good ws a)
    with Cons.prems have "\<exists>fa\<in>set rest. parseCellAddress fa = Inl (invalidAddress fa)" by auto
    from Cons.IH [OF this, of "groupAdd ws a g"] good show ?thesis by auto
  qed
qed

lemma groupByWorksheet_entries:
  "groupByWorksheet d g = Inr g' \<Longrightarrow>
     entriesOf g' = entriesOf g \<union> {(ws, a, v). (ws @ ''!'' @ a, v) \<in> set d \<and>
        parseCellAddress (ws @ ''!'' @ a) = Inr \<lparr>worksheetName = ws, cellAddress = a\<rparr>}"
proof (induction d arbitrary: g)
  case Nil
  then show ?case by simp
next
  case (Cons kv rest)
  obtain fa v where kv: "kv = (fa, v)" by (cases kv)
  show ?case
  proof (cases fa rule: parse_cases)
    case bad
    with Cons.prems kv show ?thesis by simp
  next
    case (good ws a)
    with Cons.prems kv have "groupByWorksheet rest (groupAdd ws (a, v) g) = Inr g'" by simp
    from Cons.IH [OF this] good kv show ?thesis
      by (auto simp: entriesOf_groupAdd)
  qed
qed

lemma groupByWorksheet_all_good:
  "groupByWorksheet d g = Inr g' \<Longrightarrow> fa \<in> fst ` set d \<Longrightarrow> \<exists>p. parseCellAddress fa = Inr p"
proof (induction d arbitrary: g)
  case Nil
  then show ?case by simp
next
  case (Cons kv rest)
  then show ?case by (cases kv; cases "fst kv" rule: parse_cases) auto
qed

lemma groupByWorksheet_bad:
  "\<exists>fa\<in>fst ` set d. parseCellAddress fa = Inl (invalidAddress fa) \<Longrightarrow>
     \<exists>bad\<in>fst ` set d. count_list bad (CHR ''!'') \<noteq> 1 \<and> groupByWorksheet d g = Inl (invalidAddress bad)"
proof (induction d arbitrary: g)
  case Nil
  then show ?case by simp
next
  case (Cons kv rest)
  obtain x v where kv: "kv = (x, v)" by (cases kv)
  show ?case
  proof (cases x rule: parse_cases)
    case bad
    then show ?thesis using parse_malformed [of x] kv by simp
  next
    case (good ws a)
    with Cons.prems kv have "\<exists>fa\<in>fst ` set rest. parseCellAddress fa = Inl (invalidAddress fa)"
      by auto
    from Cons.IH [OF this, of "groupAdd ws (a, v) g"] good kv show ?thesis by auto
  qed
qed

lemma groupByWorksheet_good:
  "\<forall>fa\<in>fst ` set d. \<exists>p. parseCellAddress fa = Inr p \<Longrightarrow> \<exists>g'. groupByWorksheet d g = Inr g'"
proof (induction d arbitrary: g)
  case Nil
  then show ?case by simp
next
  case (Cons kv rest)
  then show ?case by (cases kv) (auto split: sum.splits)
qed

subsection \<open>What each function may do\<close>

lemma keeps_Pair [simp]: "keeps P (Pair r)"
  by (simp add: keeps_def step_refl)

lemma keeps_lambda_ret: "keeps P (\<lambda>c. (Inr (f c), c))"
  by (simp add: keeps_def step_refl)

lemma keeps_loadCells:
  "(\<And>call. isRead call \<Longrightarrow> P call) \<Longrightarrow> keeps P (loadCells ws as rs)"
  by (induction as arbitrary: rs) (auto intro!: keeps_bindIO keeps_hostCall)

lemma keeps_loadSheets:
  "(\<And>call. isRead call \<Longrightarrow> P call) \<Longrightarrow> keeps P (loadSheets g rs)"
proof (induction g arbitrary: rs)
  case Nil
  then show ?case by simp
next
  case (Cons x g)
  obtain ws as where x: "x = (ws, as)" by (cases x)
  show ?case unfolding x loadSheets.simps
    by (intro keeps_bindIO keeps_tryCatch keeps_hostCall keeps_loadCells keeps_throwIO Cons) simp_all
qed

lemma keeps_snapshotWorksheetState:
  "(\<And>call. isRead call \<Longrightarrow> P call) \<Longrightarrow> keeps P (snapshotWorksheetState as)"
  unfolding snapshotWorksheetState_def
  by (auto split: sum.splits intro!: keeps_bindIO keeps_hostCall keeps_loadSheets keeps_lambda_ret)

lemma keeps_writeInputs:
  "(\<And>call. isRead call \<Longrightarrow> P call) \<Longrightarrow> (\<And>a v. (a, v) \<in> set l \<Longrightarrow> P (SetValues ws a v)) \<Longrightarrow>
     keeps P (writeInputs ws l)"
  by (induction l) (auto intro!: keeps_bindIO keeps_hostCall)

lemma keeps_applySheets:
  "(\<And>call. isRead call \<Longrightarrow> P call) \<Longrightarrow>
   (\<And>ws a v. (ws, a, v) \<in> entriesOf g \<Longrightarrow> P (SetValues ws a v)) \<Longrightarrow>
     keeps P (applySheets g)"
proof (induction g)
  case Nil
  then show ?case by simp
next
  case (Cons x g)
  obtain ws l where x: "x = (ws, l)" by (cases x)
  have 1: "keeps P (writeInputs ws l)"
    using Cons.prems by (intro keeps_writeInputs) (auto simp: x entriesOf_Cons)
  have 2: "keeps P (applySheets g)"
    using Cons.prems by (intro Cons.IH) (auto simp: x entriesOf_Cons)
  show ?case unfolding x applySheets.simps
    by (intro keeps_bindIO keeps_tryCatch keeps_hostCall keeps_throwIO 1 2 Cons.prems(1)) simp_all
qed

lemma keeps_applyInputs:
  assumes "\<And>call. isRead call \<Longrightarrow> P call"
    and "\<And>ws a v fa. (fa, v) \<in> set ins \<Longrightarrow>
           parseCellAddress fa = Inr \<lparr>worksheetName = ws, cellAddress = a\<rparr> \<Longrightarrow> P (SetValues ws a v)"
  shows "keeps P (applyInputs ins)"
proof (cases "groupByWorksheet ins []")
  case (Inl e)
  then show ?thesis by (simp add: applyInputs_def)
next
  case (Inr g)
  have "keeps P (applySheets g)"
  proof (rule keeps_applySheets [OF assms(1)])
    fix ws a v assume "(ws, a, v) \<in> entriesOf g"
    with groupByWorksheet_entries [OF Inr] show "P (SetValues ws a v)"
      using assms(2) by auto
  qed simp
  then show ?thesis using Inr assms(1)
    by (auto simp: applyInputs_def intro!: keeps_bindIO keeps_hostCall)
qed

lemma keeps_forceRecalculate: "P Calculate \<Longrightarrow> P Sync \<Longrightarrow> keeps P forceRecalculate"
  by (auto simp: forceRecalculate_def intro!: keeps_bindIO keeps_hostCall)

lemma keeps_loadOutputs:
  "(\<And>call. isRead call \<Longrightarrow> P call) \<Longrightarrow> keeps P (loadOutputs as rs)"
proof (induction as arbitrary: rs)
  case Nil
  then show ?case by simp
next
  case (Cons x as)
  show ?case unfolding loadOutputs.simps
    by (auto split: sum.splits intro!: keeps_bindIO keeps_tryCatch keeps_hostCall Cons)
qed

lemma keeps_readOutputs:
  "(\<And>call. isRead call \<Longrightarrow> P call) \<Longrightarrow> keeps P (readOutputs as)"
  unfolding readOutputs_def
  by (auto intro!: keeps_bindIO keeps_hostCall keeps_loadOutputs keeps_lambda_ret)

lemma keeps_applyInputsIfAny: "keeps (bodyCall tc) (applyInputsIfAny tc)"
  unfolding applyInputsIfAny_def
  by (auto split: option.splits intro!: keeps_applyInputs simp: bodyCall_def)

lemma keeps_assertionsOf: "keeps P (assertionsOf tc)"
  by (simp add: assertionsOf_def split: option.splits)

lemma keeps_runTestBody: "keeps (bodyCall tc) (runTestBody tc)"
  unfolding runTestBody_def Let_def
  by (intro keeps_bindIO keeps_applyInputsIfAny keeps_forceRecalculate keeps_assertionsOf
        keeps_readOutputs keeps_retIO) (simp_all add: bodyCall_def)

lemma keeps_runTestWithoutProtection: "keeps (bodyCall tc) (runTestWithoutProtection pf tc)"
  unfolding runTestWithoutProtection_def
  by (intro keeps_bindIO keeps_applyInputsIfAny keeps_forceRecalculate keeps_assertionsOf
        keeps_readOutputs) (auto simp: bodyCall_def split: sum.splits)

lemma keeps_restoreCell:
  "(\<And>call. isRead call \<Longrightarrow> P call) \<Longrightarrow> P (restoreWrite ws entry) \<Longrightarrow> keeps P (restoreCell ws entry)"
  unfolding restoreCell_def by (auto intro!: keeps_bindIO keeps_hostCall)

lemma keeps_restoreCells:
  "(\<And>call. isRead call \<Longrightarrow> P call) \<Longrightarrow> (\<And>entry. entry \<in> set l \<Longrightarrow> P (restoreWrite ws entry)) \<Longrightarrow>
     keeps P (restoreCells ws l)"
  by (induction l) (auto intro!: keeps_bindIO keeps_restoreCell)

lemma keeps_restoreCells_suite:
  "(\<And>call. isRead call \<Longrightarrow> P call) \<Longrightarrow> (\<And>entry. entry \<in> set l \<Longrightarrow> P (restoreWrite ws entry)) \<Longrightarrow>
     keeps P (restoreCells_suite ws l)"
  by (induction l) (auto intro!: keeps_bindIO keeps_tryCatch keeps_restoreCell)

lemma keeps_restoreSheets:
  "(\<And>call. isRead call \<Longrightarrow> P call) \<Longrightarrow>
   (\<And>ws entry. (ws, entry) \<in> entriesOf g \<Longrightarrow> P (restoreWrite ws entry)) \<Longrightarrow>
     keeps P (restoreSheets g)"
proof (induction g)
  case Nil
  then show ?case by simp
next
  case (Cons x g)
  obtain ws l where x: "x = (ws, l)" by (cases x)
  have 1: "keeps P (restoreCells ws l)"
    using Cons.prems by (intro keeps_restoreCells) (auto simp: x entriesOf_Cons)
  have 2: "keeps P (restoreSheets g)"
    using Cons.prems by (intro Cons.IH) (auto simp: x entriesOf_Cons)
  show ?case unfolding x restoreSheets.simps
    by (intro keeps_bindIO keeps_tryCatch keeps_hostCall keeps_consoleError 1 2 Cons.prems(1)) simp_all
qed

lemma keeps_restoreSheets_suite:
  "(\<And>call. isRead call \<Longrightarrow> P call) \<Longrightarrow>
   (\<And>ws entry. (ws, entry) \<in> entriesOf g \<Longrightarrow> P (restoreWrite ws entry)) \<Longrightarrow>
     keeps P (restoreSheets_suite g)"
proof (induction g)
  case Nil
  then show ?case by simp
next
  case (Cons x g)
  obtain ws l where x: "x = (ws, l)" by (cases x)
  have 1: "keeps P (restoreCells_suite ws l)"
    using Cons.prems by (intro keeps_restoreCells_suite) (auto simp: x entriesOf_Cons)
  have 2: "keeps P (restoreSheets_suite g)"
    using Cons.prems by (intro Cons.IH) (auto simp: x entriesOf_Cons)
  show ?case unfolding x restoreSheets_suite.simps
    by (intro keeps_bindIO keeps_tryCatch keeps_hostCall keeps_consoleError 1 2 Cons.prems(1)) simp_all
qed

subsection \<open>What a capture returns\<close>

lemma isRead_not_write: "isRead call \<Longrightarrow> \<not> writesTo ws a call"
  by (cases call) auto

lemma step_isRead_cells: "step isRead c c' \<Longrightarrow> cells c' = cells c"
  unfolding step_def by (intro ext) (metis isRead_not_write)

lemma set_fold_setAdd: "set (fold setAdd xs s) = set s \<union> set xs"
  by (induction xs arbitrary: s) (auto simp: setAdd_def)

lemma distinct_fold_setAdd: "distinct s \<Longrightarrow> distinct (fold setAdd xs s)"
  by (induction xs arbitrary: s) (auto simp: setAdd_def)

lemma map_fst_dictPut:
  "map fst (dictPut k v d) = (if k \<in> fst ` set d then map fst d else map fst d @ [k])"
  by (induction d) (fastforce simp: image_iff)+

lemma keys_dictPut: "fst ` set (dictPut k v d) = insert k (fst ` set d)"
  using map_fst_dictPut [of k v d] by (metis (no_types, lifting) insert_absorb list.set_map
      rotate1.simps(2) set_rotate1 list.simps(15))

lemma distinct_dictPut: "distinct (map fst d) \<Longrightarrow> distinct (map fst (dictPut k v d))"
  by (simp add: map_fst_dictPut)

lemma in_dictPut: "(k', v') \<in> set (dictPut k v d) \<Longrightarrow> (k', v') \<in> set d \<or> (k' = k \<and> v' = v)"
  by (induction d) (auto split: if_splits)

lemma keys_extractStates:
  "fst ` set (extractStates c rs snap) = fst ` set snap \<union> fst ` set rs"
proof (induction rs arbitrary: snap)
  case Nil
  then show ?case by simp
next
  case (Cons r rs)
  obtain k ws a where r: "r = (k, ws, a)" by (cases r)
  show ?case unfolding r extractStates.simps Cons.IH
    by (simp add: keys_dictPut)
qed

lemma distinct_extractStates:
  "distinct (map fst snap) \<Longrightarrow> distinct (map fst (extractStates c rs snap))"
proof (induction rs arbitrary: snap)
  case Nil
  then show ?case by simp
next
  case (Cons r rs)
  obtain k ws a where r: "r = (k, ws, a)" by (cases r)
  show ?case unfolding r extractStates.simps
    by (intro Cons.IH distinct_dictPut Cons.prems)
qed

lemma in_extractStates:
  "(k, st) \<in> set (extractStates c rs snap) \<Longrightarrow>
     (k, st) \<in> set snap \<or> (\<exists>ws a. (k, ws, a) \<in> set rs \<and> st = readState c ws a)"
proof (induction rs arbitrary: snap)
  case Nil
  then show ?case by simp
next
  case (Cons r rs)
  obtain k' ws a where r: "r = (k', ws, a)" by (cases r)
  from Cons.prems have "(k, st) \<in> set (extractStates c rs (dictPut k' (readState c ws a) snap))"
    by (simp add: r)
  from Cons.IH [OF this] show ?case
    using in_dictPut [of k st k' "readState c ws a" snap] r by auto
qed

lemma loadCells_result:
  "loadCells ws as rs c = (Inr rs', c') \<Longrightarrow> rs' = rs @ map (\<lambda>a. (ws @ ''!'' @ a, ws, a)) as"
proof (induction as arbitrary: rs c)
  case Nil
  then show ?case by simp
next
  case (Cons a as)
  from Cons.prems obtain c1 where "loadCells ws as (rs @ [(ws @ ''!'' @ a, ws, a)]) c1 = (Inr rs', c')"
    by (auto simp: bindIO_def split: prod.splits sum.splits)
  from Cons.IH [OF this] show ?case by simp
qed

lemma loadSheets_result:
  "loadSheets g rs c = (Inr rs', c') \<Longrightarrow>
     set rs' = set rs \<union> {(ws @ ''!'' @ a, ws, a) | ws a. (ws, a) \<in> entriesOf g}"
proof (induction g arbitrary: rs c)
  case Nil
  then show ?case by simp
next
  case (Cons x g)
  obtain ws as where x: "x = (ws, as)" by (cases x)
  from Cons.prems obtain c1 c2 rs1 where
    1: "loadCells ws as rs c1 = (Inr rs1, c2)" and 2: "loadSheets g rs1 c2 = (Inr rs', c')"
    by (auto simp: x bindIO_def tryCatch_def split: prod.splits sum.splits)
  from loadCells_result [OF 1] Cons.IH [OF 2] show ?case
    by (auto simp: x entriesOf_Cons)
qed

lemma snapshot_result:
  assumes "snapshotWorksheetState as c = (Inr snap, c1)"
  shows "fst ` set snap = set as"
    and "distinct (map fst snap)"
    and "cells c1 = cells c"
    and "\<And>k st. (k, st) \<in> set snap \<Longrightarrow>
           \<exists>ws a. parseCellAddress k = Inr \<lparr>worksheetName = ws, cellAddress = a\<rparr> \<and>
                  st = readState c1 ws a"
proof -
  from assms obtain g where g: "groupCells as [] = Inr g"
    by (cases "groupCells as []") (auto simp: snapshotWorksheetState_def)
  obtain r c2 where ld0: "loadSheets g [] c = (r, c2)" by (cases "loadSheets g [] c")
  with assms g obtain rs where ld: "loadSheets g [] c = (Inr rs, c2)"
    by (cases r) (auto simp: snapshotWorksheetState_def bindIO_def)
  obtain r' c3 where sy: "hostCall Sync c2 = (r', c3)" by (cases "hostCall Sync c2")
  with assms g ld have snap: "snap = extractStates c1 rs []"
    by (cases r') (auto simp: snapshotWorksheetState_def bindIO_def)
  have rs: "set rs = {(ws @ ''!'' @ a, ws, a) | ws a. (ws, a) \<in> entriesOf g}"
    using loadSheets_result [OF ld] by simp
  have ent: "entriesOf g = {(ws, a). ws @ ''!'' @ a \<in> set as \<and>
        parseCellAddress (ws @ ''!'' @ a) = Inr \<lparr>worksheetName = ws, cellAddress = a\<rparr>}"
    using groupCells_entries [OF g] by simp
  show "fst ` set snap = set as"
  proof
    show "fst ` set snap \<subseteq> set as"
      using rs ent by (auto simp: snap keys_extractStates)
    show "set as \<subseteq> fst ` set snap"
    proof
      fix fa assume fa: "fa \<in> set as"
      from groupCells_all_good [OF g fa] obtain p where p: "parseCellAddress fa = Inr p" ..
      from parse_roundtrip [OF p] have eq: "fa = worksheetName p @ ''!'' @ cellAddress p" .
      have "(worksheetName p, cellAddress p) \<in> entriesOf g"
        using fa p eq by (simp add: ent)
      then have "(fa, worksheetName p, cellAddress p) \<in> set rs"
        using eq rs by auto
      then show "fa \<in> fst ` set snap"
        by (auto simp: snap keys_extractStates intro: rev_image_eqI)
    qed
  qed
  show "distinct (map fst snap)"
    by (simp add: snap distinct_extractStates)
  show "cells c1 = cells c"
    using keeps_snapshotWorksheetState [of isRead as] assms
    by (auto simp: keeps_def dest!: spec [of _ c] intro: step_isRead_cells)
  show "\<exists>ws a. parseCellAddress k = Inr \<lparr>worksheetName = ws, cellAddress = a\<rparr> \<and>
                  st = readState c1 ws a" if "(k, st) \<in> set snap" for k st
    using in_extractStates [of k st c1 rs "[]"] that rs ent by (auto simp: snap)
qed

subsection \<open>A host that accepts every call\<close>

lemma played_Nil [simp]: "played [] c = c"
  by (simp add: played_def)

lemma played_played: "played ds (played cs c) = played (cs @ ds) c"
  by (simp add: played_def)

lemma accepting_played: "accepting c \<Longrightarrow> accepting (played cs c)"
  by (simp add: accepting_def played_def)

lemma hostCall_accepting: "accepting c \<Longrightarrow> hostCall call c = (Inr (), played [call] c)"
proof -
  assume "accepting c"
  then have "rejects c (calls c) call = None"
    unfolding accepting_def by (metis append_Nil2)
  then show ?thesis by (simp add: hostCall_def played_def)
qed

lemma restoreCell_accepting:
  "accepting c \<Longrightarrow>
     restoreCell ws e c = (Inr (), played [GetRange ws (fst e), restoreWrite ws e] c)"
  by (simp add: restoreCell_def bindIO_def hostCall_accepting accepting_played played_played)

lemma restoreCells_accepting:
  "accepting c \<Longrightarrow>
     restoreCells ws l c =
       (Inr (), played (concat (map (\<lambda>e. [GetRange ws (fst e), restoreWrite ws e]) l)) c)"
proof (induction l arbitrary: c)
  case Nil
  then show ?case by simp
next
  case (Cons e l)
  have "accepting (played [GetRange ws (fst e), restoreWrite ws e] c)"
    using Cons.prems by (rule accepting_played)
  from Cons.IH [OF this] show ?case
    using Cons.prems by (simp add: bindIO_def restoreCell_accepting played_played)
qed

lemma restoreCells_suite_accepting:
  "accepting c \<Longrightarrow>
     restoreCells_suite ws l c =
       (Inr (), played (concat (map (\<lambda>e. [GetRange ws (fst e), restoreWrite ws e]) l)) c)"
proof (induction l arbitrary: c)
  case Nil
  then show ?case by simp
next
  case (Cons e l)
  have "accepting (played [GetRange ws (fst e), restoreWrite ws e] c)"
    using Cons.prems by (rule accepting_played)
  from Cons.IH [OF this] show ?case
    using Cons.prems by (simp add: bindIO_def tryCatch_def restoreCell_accepting played_played)
qed

lemma restoreSheets_accepting:
  "accepting c \<Longrightarrow> restoreSheets g c = (Inr (), played (concat (map sheetTrace g)) c)"
proof (induction g arbitrary: c)
  case Nil
  then show ?case by simp
next
  case (Cons x g)
  obtain ws l where x: "x = (ws, l)" by (cases x)
  have "accepting (played (sheetTrace x) c)"
    using Cons.prems by (rule accepting_played)
  from Cons.IH [OF this] show ?case
    using Cons.prems
    by (simp add: x bindIO_def tryCatch_def hostCall_accepting restoreCells_accepting
          accepting_played played_played sheetTrace_def)
qed

lemma restoreSheets_suite_accepting:
  "accepting c \<Longrightarrow> restoreSheets_suite g c = (Inr (), played (concat (map sheetTrace g)) c)"
proof (induction g arbitrary: c)
  case Nil
  then show ?case by simp
next
  case (Cons x g)
  obtain ws l where x: "x = (ws, l)" by (cases x)
  have "accepting (played (sheetTrace x) c)"
    using Cons.prems by (rule accepting_played)
  from Cons.IH [OF this] show ?case
    using Cons.prems
    by (simp add: x bindIO_def tryCatch_def hostCall_accepting restoreCells_suite_accepting
          accepting_played played_played sheetTrace_def)
qed

lemma restoreState_accepting:
  "accepting c \<Longrightarrow> groupByWorksheet snap [] = Inr g \<Longrightarrow>
     restoreState snap c = (Inr (), played (restoreTrace g) c)"
  by (simp add: restoreState_def bindIO_def restoreSheets_accepting hostCall_accepting
        accepting_played played_played restoreTrace_def)

lemma restoreState_suite_accepting:
  "accepting c \<Longrightarrow> groupByWorksheet snap [] = Inr g \<Longrightarrow>
     restoreState_suite snap c = (Inr (), played (restoreTrace g) c)"
  by (simp add: restoreState_suite_def bindIO_def restoreSheets_suite_accepting hostCall_accepting
        accepting_played played_played restoreTrace_def)

subsection \<open>The cells after a sequence of calls\<close>

lemma effect_written: "writesTo ws a call \<Longrightarrow> effect call k ws a = written call"
  by (cases call) auto

lemma fold_effect_unwritten:
  "\<forall>x\<in>set cs. \<not> writesTo ws a x \<Longrightarrow> fold effect cs k ws a = k ws a"
  by (induction cs arbitrary: k) (simp_all add: effect_other)

lemma fold_effect_written:
  "\<exists>x\<in>set cs. writesTo ws a x \<Longrightarrow> \<forall>x\<in>set cs. writesTo ws a x \<longrightarrow> written x = v \<Longrightarrow>
     fold effect cs k ws a = v"
proof (induction cs arbitrary: k)
  case Nil
  then show ?case by simp
next
  case (Cons x cs)
  show ?case
  proof (cases "\<exists>y\<in>set cs. writesTo ws a y")
    case True
    then show ?thesis using Cons.IH [OF True] Cons.prems(2) by simp
  next
    case False
    with Cons.prems have x: "writesTo ws a x" "written x = v" by auto
    from False have "fold effect cs (effect x k) ws a = effect x k ws a"
      by (intro fold_effect_unwritten) simp
    with x show ?thesis by (simp add: effect_written)
  qed
qed

lemma writesTo_restoreWrite: "writesTo ws' a' (restoreWrite ws e) \<longleftrightarrow> ws' = ws \<and> a' = fst e"
  by (auto simp: restoreWrite_def split: option.splits)

lemma in_sheetTrace:
  "x \<in> set (sheetTrace g) \<longleftrightarrow>
     x = GetItem (fst g) \<or> (\<exists>e\<in>set (snd g). x = GetRange (fst g) (fst e) \<or> x = restoreWrite (fst g) e)"
  by (auto simp: sheetTrace_def)

lemma write_in_restoreTrace:
  "x \<in> set (restoreTrace g) \<and> writesTo ws a x \<longleftrightarrow>
     (\<exists>st. (ws, a, st) \<in> entriesOf g \<and> x = restoreWrite ws (a, st))"
proof
  assume "x \<in> set (restoreTrace g) \<and> writesTo ws a x"
  then obtain s where s: "s \<in> set g" "x \<in> set (sheetTrace s)" and w: "writesTo ws a x"
    by (auto simp: restoreTrace_def)
  from s(2) w obtain e where e: "e \<in> set (snd s)" "x = restoreWrite (fst s) e"
    by (auto simp: in_sheetTrace)
  with w have "ws = fst s" "a = fst e" by (simp_all add: writesTo_restoreWrite)
  with e s(1) show "\<exists>st. (ws, a, st) \<in> entriesOf g \<and> x = restoreWrite ws (a, st)"
    by (intro exI [of _ "snd e"]) (auto simp: entriesOf_def intro!: exI [of _ "snd s"])
next
  assume "\<exists>st. (ws, a, st) \<in> entriesOf g \<and> x = restoreWrite ws (a, st)"
  then obtain st l where "(ws, l) \<in> set g" "(a, st) \<in> set l" "x = restoreWrite ws (a, st)"
    by (auto simp: entriesOf_def)
  then show "x \<in> set (restoreTrace g) \<and> writesTo ws a x"
    by (force simp: restoreTrace_def in_sheetTrace writesTo_restoreWrite)
qed

lemma restored_cell:
  assumes "(ws, a, st) \<in> entriesOf g"
    and "\<And>st'. (ws, a, st') \<in> entriesOf g \<Longrightarrow> st' = st"
  shows "cells (played (restoreTrace g) c) ws a = written (restoreWrite ws (a, st))"
proof -
  have "fold effect (restoreTrace g) (cells c) ws a = written (restoreWrite ws (a, st))"
  proof (rule fold_effect_written)
    show "\<exists>x\<in>set (restoreTrace g). writesTo ws a x"
      using assms(1) write_in_restoreTrace by blast
    show "\<forall>x\<in>set (restoreTrace g). writesTo ws a x \<longrightarrow> written x = written (restoreWrite ws (a, st))"
      using assms(2) write_in_restoreTrace by blast
  qed
  then show ?thesis by (simp add: played_def)
qed

lemma untouched_cell:
  assumes "\<And>st. (ws, a, st) \<notin> entriesOf g"
  shows "cells (played (restoreTrace g) c) ws a = cells c ws a"
proof -
  have "\<forall>x\<in>set (restoreTrace g). \<not> writesTo ws a x"
    using assms write_in_restoreTrace by blast
  then show ?thesis by (simp add: played_def fold_effect_unwritten)
qed

lemma written_readState:
  "cells c ws a \<noteq> Formula [] \<Longrightarrow> written (restoreWrite ws (a, readState c ws a)) = cells c ws a"
  by (cases "cells c ws a")
     (auto simp: restoreWrite_def readState_def formulaOf_def valueOf_def)

text \<open>A snapshot captured at \<open>c\<close>, any run that writes only to captured cells, then a
  restore that the host accepts: the document is as it was at \<open>c\<close>.\<close>

lemma restore_all:
  assumes cap: "snapshotWorksheetState as c = (Inr snap, c1)"
    and run: "step (withinCells (set as)) c1 c2"
    and acc: "accepting c2"
    and wf: "\<And>ws a. cells c ws a \<noteq> Formula []"
  shows "\<exists>g. groupByWorksheet snap [] = Inr g \<and> cells (played (restoreTrace g) c2) = cells c"
proof -
  note sn = snapshot_result [OF cap]
  have "\<forall>fa\<in>fst ` set snap. \<exists>p. parseCellAddress fa = Inr p"
    using sn(4) by fastforce
  from groupByWorksheet_good [OF this] obtain g where g: "groupByWorksheet snap [] = Inr g" ..
  have ent: "\<And>ws a st. (ws, a, st) \<in> entriesOf g \<longleftrightarrow> (ws @ ''!'' @ a, st) \<in> set snap \<and>
        parseCellAddress (ws @ ''!'' @ a) = Inr \<lparr>worksheetName = ws, cellAddress = a\<rparr>"
    using groupByWorksheet_entries [OF g] by auto
  have st_eq: "st = readState c1 ws a" if "(ws, a, st) \<in> entriesOf g" for ws a st
    using that sn(4) [of "ws @ ''!'' @ a" st] ent by auto
  have "cells (played (restoreTrace g) c2) ws a = cells c ws a" for ws a
  proof (cases "\<exists>st. (ws, a, st) \<in> entriesOf g")
    case True
    then obtain st where st: "(ws, a, st) \<in> entriesOf g" ..
    have "cells (played (restoreTrace g) c2) ws a = written (restoreWrite ws (a, st))"
    proof (rule restored_cell [OF st])
      fix st' assume "(ws, a, st') \<in> entriesOf g"
      then show "st' = st" using st_eq [of ws a st'] st_eq [OF st] by simp
    qed
    also have "\<dots> = cells c1 ws a"
      using st_eq [OF st] wf sn(3) by (simp add: written_readState)
    finally show ?thesis using sn(3) by simp
  next
    case False
    then have "cells (played (restoreTrace g) c2) ws a = cells c2 ws a"
      by (intro untouched_cell) simp
    also have "\<dots> = cells c1 ws a"
    proof -
      from run obtain cs where cs: "\<forall>x\<in>set cs. withinCells (set as) x"
        "\<forall>ws a. (\<forall>x\<in>set cs. \<not> writesTo ws a x) \<longrightarrow> cells c2 ws a = cells c1 ws a"
        unfolding step_def by blast
      have "\<not> writesTo ws a x" if x: "x \<in> set cs" for x
      proof
        assume w: "writesTo ws a x"
        from cs(1) x have "withinCells (set as) x" by blast
        with w obtain v fa where fa: "fa \<in> set as"
          "parseCellAddress fa = Inr \<lparr>worksheetName = ws, cellAddress = a\<rparr>"
          unfolding withinCells_def using isRead_not_write [of x ws a] by auto
        from parse_roundtrip [OF fa(2)] have eq: "fa = ws @ ''!'' @ a" by simp
        from fa(1) sn(1) obtain st where "(fa, st) \<in> set snap" by force
        with eq fa(2) have "(ws, a, st) \<in> entriesOf g" by (simp add: ent)
        with False show False by blast
      qed
      with cs(2) show ?thesis by blast
    qed
    finally show ?thesis using sn(3) by simp
  qed
  then have "cells (played (restoreTrace g) c2) = cells c" by (intro ext)
  with g show ?thesis by blast
qed

subsection \<open>The loop over the tests\<close>

lemma suiteStep_result:
  "suiteStep pf n i tc acc c =
     (case runTestWithoutProtection pf tc (c\<lparr>console := console c @ [ConsoleLog (runningMessage n i tc) None]\<rparr>) of
        (Inr r, c') \<Rightarrow> (Inr (fst acc @ [r], if resultPassed r then snd acc + 1 else snd acc), c')
      | (Inl e, c') \<Rightarrow>
          (Inr (fst acc @ [errorResult (nameOr (name tc) (''Test '' @ showNat (i + 1))) e], snd acc),
           c'\<lparr>console := console c' @
                  [ConsoleLog (''Error running test '' @ nameOr (name tc) (''Test '' @ showNat (i + 1)) @ '':'')
                     (Some e)]\<rparr>))"
  by (simp add: suiteStep_def bindIO_def tryCatch_def Let_def split: prod.splits sum.splits)

lemma suiteStep_total:
  "\<exists>r k c'. suiteStep pf n i tc acc c = (Inr (fst acc @ [r], k), c')"
  by (simp add: suiteStep_result split: prod.splits sum.splits)

lemma runTests_total:
  "\<exists>rs k c'. runTests pf n i tcs acc c = (Inr (fst acc @ rs, k), c') \<and> length rs = length tcs"
proof (induction tcs arbitrary: i acc c)
  case Nil
  then show ?case by (cases acc) simp
next
  case (Cons tc tcs)
  obtain r k c1 where 1: "suiteStep pf n i tc acc c = (Inr (fst acc @ [r], k), c1)"
    using suiteStep_total by blast
  obtain rs k' c2 where 2: "runTests pf n (i + 1) tcs (fst acc @ [r], k) c1 = (Inr ((fst acc @ [r]) @ rs, k'), c2)"
    "length rs = length tcs"
    using Cons.IH [of "i + 1" "(fst acc @ [r], k)" c1] by auto
  show ?case
    using 1 2 by (intro exI [of _ "r # rs"]) (simp add: bindIO_def)
qed

lemma runTests_append:
  "runTests pf n i (xs @ ys) acc c =
     (case runTests pf n i xs acc c of
        (Inl e, c') \<Rightarrow> (Inl e, c')
      | (Inr acc', c') \<Rightarrow> runTests pf n (i + length xs) ys acc' c')"
proof (induction xs arbitrary: i acc c)
  case Nil
  then show ?case by simp
next
  case (Cons x xs)
  show ?case
    by (simp add: bindIO_def Cons.IH split: prod.splits sum.splits)
qed

lemma runTests_middle:
  assumes run: "runTests pf n 0 (xs @ x # ys) ([], 0) c = (Inr acc, cf)"
  shows "fst acc ! length xs =
     (case runTestWithoutProtection pf x
             ((snd (runTests pf n 0 xs ([], 0) c))
                \<lparr>console := console (snd (runTests pf n 0 xs ([], 0) c))
                                @ [ConsoleLog (runningMessage n (length xs) x) None]\<rparr>) of
        (Inr r, c') \<Rightarrow> r
      | (Inl e, c') \<Rightarrow> errorResult (nameOr (name x) (''Test '' @ showNat (length xs + 1))) e)"
proof -
  obtain rs1 k1 c1 where 1: "runTests pf n 0 xs ([], 0) c = (Inr (rs1, k1), c1)"
    and len: "length rs1 = length xs"
    using runTests_total [of pf n 0 xs "([], 0)" c] by auto
  obtain r k2 c2 where 2: "suiteStep pf n (length xs) x (rs1, k1) c1 = (Inr (rs1 @ [r], k2), c2)"
    using suiteStep_total [of pf n "length xs" x "(rs1, k1)" c1] by auto
  obtain rs3 k3 c3 where 3:
    "runTests pf n (length xs + 1) ys (rs1 @ [r], k2) c2 = (Inr ((rs1 @ [r]) @ rs3, k3), c3)"
    using runTests_total [of pf n "length xs + 1" ys "(rs1 @ [r], k2)" c2] by auto
  have "runTests pf n 0 (xs @ x # ys) ([], 0) c = runTests pf n (0 + length xs) (x # ys) (rs1, k1) c1"
    by (simp only: runTests_append 1 prod.case sum.case)
  also have "\<dots> = runTests pf n (length xs + 1) ys (rs1 @ [r], k2) c2"
    by (simp only: runTests.simps bindIO_def add_0 2 prod.case sum.case)
  also have "\<dots> = (Inr ((rs1 @ [r]) @ rs3, k3), c3)"
    by (rule 3)
  finally have eq: "runTests pf n 0 (xs @ x # ys) ([], 0) c = (Inr ((rs1 @ [r]) @ rs3, k3), c3)" .
  from trans [OF run [symmetric] eq] have "fst acc = rs1 @ r # rs3" by simp
  then have "fst acc ! length xs = r" using len by (simp add: nth_append)
  moreover have "r = (case runTestWithoutProtection pf x
             (c1\<lparr>console := console c1 @ [ConsoleLog (runningMessage n (length xs) x) None]\<rparr>) of
        (Inr r, c') \<Rightarrow> r
      | (Inl e, c') \<Rightarrow> errorResult (nameOr (name x) (''Test '' @ showNat (length xs + 1))) e)"
  proof -
    let ?c = "c1\<lparr>console := console c1 @ [ConsoleLog (runningMessage n (length xs) x) None]\<rparr>"
    obtain res c' where rt: "runTestWithoutProtection pf x ?c = (res, c')"
      by (cases "runTestWithoutProtection pf x ?c")
    show ?thesis
    proof (cases res)
      case (Inl e)
      have "fst (suiteStep pf n (length xs) x (rs1, k1) c1) =
              Inr (rs1 @ [errorResult (nameOr (name x) (''Test '' @ showNat (length xs + 1))) e], k1)"
        by (simp add: suiteStep_result rt Inl)
      then have "r = errorResult (nameOr (name x) (''Test '' @ showNat (length xs + 1))) e"
        unfolding 2 by simp
      then show ?thesis by (simp add: rt Inl)
    next
      case (Inr r')
      have "fst (suiteStep pf n (length xs) x (rs1, k1) c1) =
              Inr (rs1 @ [r'], if resultPassed r' then k1 + 1 else k1)"
        by (simp add: suiteStep_result rt Inr)
      then have "r = r'"
        unfolding 2 by simp
      then show ?thesis by (simp add: rt Inr)
    qed
  qed
  ultimately show ?thesis by (simp only: 1 snd_conv)
qed

lemma runTests_nth:
  assumes i: "i < length tcs"
    and run: "runTests pf n 0 tcs ([], 0) c = (Inr acc, cf)"
  shows "fst acc ! i =
     (case runTestWithoutProtection pf (tcs ! i) (testContext pf n tcs i c) of
        (Inr r, c') \<Rightarrow> r
      | (Inl e, c') \<Rightarrow> errorResult (nameOr (name (tcs ! i)) (''Test '' @ showNat (i + 1))) e)"
proof -
  have tcs: "take i tcs @ (tcs ! i) # drop (Suc i) tcs = tcs"
    using id_take_nth_drop [OF i] by simp
  have len: "length (take i tcs) = i" using i by simp
  have "runTests pf n 0 (take i tcs @ (tcs ! i) # drop (Suc i) tcs) ([], 0) c = (Inr acc, cf)"
    by (simp only: tcs run)
  from runTests_middle [OF this] show ?thesis
    by (simp only: len testContext_def Let_def)
qed

lemma restoreAfterSuite_total: "\<exists>c'. restoreAfterSuite snapshot c = (Inr (), c')"
  by (cases snapshot)
     (auto simp: restoreAfterSuite_def tryCatch_def bindIO_def split: prod.splits sum.splits)

lemma snapshotSuite_total: "\<exists>snapshot c'. snapshotSuite tcs c = (Inr snapshot, c')"
  by (auto simp: snapshotSuite_def tryCatch_def bindIO_def split: prod.splits sum.splits)

subsection \<open>What a read returns\<close>

lemma keys_extractValues:
  "fst ` set (extractValues c rs d) = fst ` set d \<union> fst ` set rs"
proof (induction rs arbitrary: d)
  case Nil
  then show ?case by simp
next
  case (Cons r rs)
  obtain k ws a where r: "r = (k, ws, a)" by (cases r)
  show ?case unfolding r extractValues.simps Cons.IH
    by (simp add: keys_dictPut)
qed

lemma distinct_extractValues:
  "distinct (map fst d) \<Longrightarrow> distinct (map fst (extractValues c rs d))"
proof (induction rs arbitrary: d)
  case Nil
  then show ?case by simp
next
  case (Cons r rs)
  obtain k ws a where r: "r = (k, ws, a)" by (cases r)
  show ?case unfolding r extractValues.simps
    by (intro Cons.IH distinct_dictPut Cons.prems)
qed

lemma in_extractValues:
  "(k, v) \<in> set (extractValues c rs d) \<Longrightarrow>
     (k, v) \<in> set d \<or> (\<exists>ws a. (k, ws, a) \<in> set rs \<and> v = valueOf c ws a)"
proof (induction rs arbitrary: d)
  case Nil
  then show ?case by simp
next
  case (Cons r rs)
  obtain k' ws a where r: "r = (k', ws, a)" by (cases r)
  from Cons.prems have "(k, v) \<in> set (extractValues c rs (dictPut k' (valueOf c ws a) d))"
    by (simp add: r)
  from Cons.IH [OF this] show ?case
    using in_dictPut [of k v k' "valueOf c ws a" d] r by auto
qed

lemma loadOutputs_result:
  "loadOutputs as rs c = (Inr rs', c') \<Longrightarrow>
     set rs' = set rs \<union> {(k, ws, a). k \<in> set as \<and>
                  parseCellAddress k = Inr \<lparr>worksheetName = ws, cellAddress = a\<rparr>} \<and>
     (\<forall>k\<in>set as. \<exists>p. parseCellAddress k = Inr p)"
proof (induction as arbitrary: rs c)
  case Nil
  then show ?case by simp
next
  case (Cons k as)
  show ?case
  proof (cases k rule: parse_cases)
    case bad
    with Cons.prems show ?thesis
      by (simp add: bindIO_def tryCatch_def)
  next
    case (good ws a)
    with Cons.prems obtain c1 where "loadOutputs as (rs @ [(k, ws, a)]) c1 = (Inr rs', c')"
      by (auto simp: bindIO_def tryCatch_def split: prod.splits sum.splits)
    from Cons.IH [OF this] good(1) show ?thesis by auto
  qed
qed

lemma readOutputs_result:
  assumes "readOutputs as c = (Inr outputs, c')" and "k \<in> set as"
  shows "\<exists>ws a. parseCellAddress k = Inr \<lparr>worksheetName = ws, cellAddress = a\<rparr> \<and>
               dictGet outputs k = valueOf c' ws a"
proof -
  obtain r c1 where ld0: "loadOutputs as [] c = (r, c1)" by (cases "loadOutputs as [] c")
  with assms(1) obtain rs where ld: "loadOutputs as [] c = (Inr rs, c1)"
    by (cases r) (auto simp: readOutputs_def bindIO_def)
  obtain r' c2 where sy: "hostCall Sync c1 = (r', c2)" by (cases "hostCall Sync c1")
  with assms(1) ld have out: "outputs = extractValues c' rs []"
    by (cases r') (auto simp: readOutputs_def bindIO_def)
  from loadOutputs_result [OF ld]
  have rs: "set rs = {(k, ws, a). k \<in> set as \<and>
                  parseCellAddress k = Inr \<lparr>worksheetName = ws, cellAddress = a\<rparr>}"
    and good: "\<forall>k\<in>set as. \<exists>p. parseCellAddress k = Inr p" by simp_all
  from good assms(2) obtain p where p: "parseCellAddress k = Inr p" by blast
  then have pk: "parseCellAddress k = Inr \<lparr>worksheetName = worksheetName p, cellAddress = cellAddress p\<rparr>"
    by simp
  with assms(2) have "(k, worksheetName p, cellAddress p) \<in> set rs" by (simp add: rs)
  then have "k \<in> fst ` set outputs"
    by (auto simp: out keys_extractValues intro: rev_image_eqI)
  then obtain v where v: "(k, v) \<in> set outputs" by auto
  have "distinct (map fst outputs)" by (simp add: out distinct_extractValues)
  with v have m: "map_of outputs k = Some v" by simp
  from in_extractValues [of k v c' rs "[]"] v obtain ws a where
    "(k, ws, a) \<in> set rs" "v = valueOf c' ws a" by (auto simp: out)
  with rs m show ?thesis by (auto simp: dictGet_def)
qed

subsection \<open>A boolean cell and an expected value that is not a string\<close>

lemma convertExpected_boolean:
  "isBoolean actualValue \<Longrightarrow> \<not> isString expectedValue \<Longrightarrow>
     \<exists>m. convertExpected pf actualValue expectedValue = Inl (TypeError m)"
  by (cases actualValue; cases expectedValue) (simp_all add: convertExpected_def)

lemma evaluateUnprotected_boolean:
  "a \<in> set asserts \<Longrightarrow> isBoolean (dictGet outputs (cell a)) \<Longrightarrow> \<not> isString (equals a) \<Longrightarrow>
     \<exists>e. evaluateUnprotected pf outputs asserts rs = Inl e"
proof (induction asserts arbitrary: rs)
  case Nil
  then show ?case by simp
next
  case (Cons x asserts)
  show ?case
  proof (cases "convertExpected pf (dictGet outputs (cell x)) (equals x)")
    case (Inl e)
    then show ?thesis by (simp add: Let_def)
  next
    case (Inr v)
    with Cons.prems convertExpected_boolean [of "dictGet outputs (cell x)" "equals x" pf]
    have "a \<in> set asserts" by auto
    from Cons.IH [OF this Cons.prems(2,3)] Inr show ?thesis by (simp add: Let_def)
  qed
qed

lemma runTestWithoutProtection_boolean:
  assumes asserts: "assertions tc = Some asserts"
    and a: "a \<in> set asserts"
    and ns: "\<not> isString (equals a)"
    and p: "parseCellAddress (cell a) = Inr \<lparr>worksheetName = ws, cellAddress = la\<rparr>"
    and run: "runTestWithoutProtection pf tc c = (r, c')"
    and b: "isBoolean (valueOf c' ws la)"
  shows "\<exists>e. r = Inl e"
proof (cases r)
  case (Inl e)
  then show ?thesis by blast
next
  case (Inr res)
  obtain r1 c1 where 1: "applyInputsIfAny tc c = (r1, c1)" by (cases "applyInputsIfAny tc c")
  obtain r2 c2 where 2: "forceRecalculate c1 = (r2, c2)" by (cases "forceRecalculate c1")
  obtain r3 c3 where 3: "readOutputs (map cell asserts) c2 = (r3, c3)"
    by (cases "readOutputs (map cell asserts) c2")
  from run Inr 1 2 3 asserts obtain outputs where o: "r3 = Inr outputs" and c3: "c3 = c'"
    and ev: "\<exists>rs. evaluateUnprotected pf outputs asserts [] = Inr rs"
    by (cases r1; cases r2; cases r3)
       (auto simp: runTestWithoutProtection_def bindIO_def assertionsOf_def split: sum.splits)
  from readOutputs_result [of "map cell asserts" c2 outputs c3 "cell a"] 3 o a p
  have "dictGet outputs (cell a) = valueOf c3 ws la" by auto
  with b c3 have "isBoolean (dictGet outputs (cell a))" by simp
  from evaluateUnprotected_boolean [OF a this ns, of pf "[]"] ev show ?thesis by auto
qed

subsection \<open>The protected addresses\<close>

lemma set_addTestAddresses:
  "set (addTestAddresses tc s) = set s \<union> inputKeys tc \<union> assertionCells tc"
  by (auto simp: addTestAddresses_def inputKeys_def assertionCells_def set_fold_setAdd Let_def
           split: option.splits)

lemma set_fold_addTestAddresses:
  "set (fold addTestAddresses tcs s) = set s \<union> (\<Union>t\<in>set tcs. inputKeys t \<union> assertionCells t)"
  by (induction tcs arbitrary: s) (auto simp: set_addTestAddresses)

lemma snapshotSuite_captured:
  "snapshotWorksheetState (fold addTestAddresses tcs []) c = (Inr snap, c1) \<Longrightarrow>
     snapshotSuite tcs c = (Inr (Some snap), c1)"
  by (simp add: snapshotSuite_def tryCatch_def bindIO_def)

lemma runTestSuite_captured:
  assumes "snapshotWorksheetState (fold addTestAddresses tcs []) c = (Inr snap, c1)"
    and "runTests pf (length tcs) 0 tcs ([], 0) c1 = (Inr acc, c2)"
  shows "runTestSuite pf tcs c =
     (Inr \<lparr>results = fst acc, passedCount = snd acc, totalCount = length tcs\<rparr>,
      snd (restoreAfterSuite (Some snap) c2))"
proof -
  obtain c3 where "restoreAfterSuite (Some snap) c2 = (Inr (), c3)"
    using restoreAfterSuite_total by blast
  then show ?thesis
    using snapshotSuite_captured [OF assms(1)] assms(2)
    by (simp add: runTestSuite_def bindIO_def tryFinally_def)
qed

subsection \<open>Malformed addresses\<close>

lemma snapshot_malformed:
  assumes "bad \<in> set as" and "count_list bad (CHR ''!'') \<noteq> 1"
  shows "\<exists>b. b \<in> set as \<and> count_list b (CHR ''!'') \<noteq> 1 \<and>
            snapshotWorksheetState as c = (Inl (invalidAddress b), c)"
proof -
  have "\<exists>fa\<in>set as. parseCellAddress fa = Inl (invalidAddress fa)"
    using assms parse_malformed by blast
  from groupCells_bad [OF this, of "[]"] show ?thesis
    by (auto simp: snapshotWorksheetState_def)
qed

lemma applyInputs_malformed:
  assumes "bad \<in> fst ` set ins" and "count_list bad (CHR ''!'') \<noteq> 1"
  shows "\<exists>b. b \<in> fst ` set ins \<and> count_list b (CHR ''!'') \<noteq> 1 \<and>
            applyInputs ins c = (Inl (invalidAddress b), c)"
proof -
  have "\<exists>fa\<in>fst ` set ins. parseCellAddress fa = Inl (invalidAddress fa)"
    using assms parse_malformed by blast
  from groupByWorksheet_bad [OF this, of "[]"] show ?thesis
    by (auto simp: applyInputs_def)
qed

lemma restoreState_malformed:
  assumes "bad \<in> fst ` set snap" and "count_list bad (CHR ''!'') \<noteq> 1"
  shows "\<exists>b. b \<in> fst ` set snap \<and> count_list b (CHR ''!'') \<noteq> 1 \<and>
            restoreState snap c = (Inl (invalidAddress b), c) \<and>
            restoreState_suite snap c = (Inl (invalidAddress b), c)"
proof -
  have "\<exists>fa\<in>fst ` set snap. parseCellAddress fa = Inl (invalidAddress fa)"
    using assms parse_malformed by blast
  from groupByWorksheet_bad [OF this, of "[]"] show ?thesis
    by (auto simp: restoreState_def restoreState_suite_def)
qed

lemma readOutputs_malformed_first:
  assumes "count_list bad (CHR ''!'') \<noteq> 1"
  shows \<open>readOutputs (bad # rest) c =
     (Inl (Error (''Failed to read output from cell "'' @ bad @ ''": ''
                  @ message (invalidAddress bad))), c)\<close>
  using assms parse_malformed [of bad]
  by (simp add: readOutputs_def bindIO_def tryCatch_def)

lemma hostCall_calls: "calls (snd (hostCall call c)) = calls c @ [call]"
  by (simp add: hostCall_def split: option.splits)

lemma loadOutputs_calls:
  "\<exists>cs. calls (snd (loadOutputs as rs c)) = calls c @ cs \<and> Sync \<notin> set cs"
proof (induction as arbitrary: rs c)
  case Nil
  then show ?case by simp
next
  case (Cons k as)
  show ?case
  proof (cases k rule: parse_cases)
    case bad
    then show ?thesis by (simp add: bindIO_def tryCatch_def)
  next
    case (good ws a)
    let ?m = "bindIO (hostCall (GetItem ws)) (\<lambda>u.
               bindIO (hostCall (GetRange ws a)) (\<lambda>u.
               bindIO (hostCall (LoadValues ws a)) (\<lambda>u.
               retIO (rs @ [(k, ws, a)]))))"
    obtain r c1 where m: "?m c = (r, c1)" by (cases "?m c")
    have c1: "\<exists>cs. calls c1 = calls c @ cs \<and> Sync \<notin> set cs"
      using m by (auto simp: bindIO_def hostCall_def split: option.splits)
    show ?thesis
    proof (cases r)
      case (Inl e)
      then show ?thesis using good m c1 by (simp add: bindIO_def tryCatch_def)
    next
      case (Inr rs')
      from Cons.IH [of rs' c1] c1 obtain cs cs' where
        "calls (snd (loadOutputs as rs' c1)) = calls c @ (cs @ cs')" "Sync \<notin> set (cs @ cs')"
        by auto
      then show ?thesis using good m Inr by (simp add: bindIO_def tryCatch_def)
    qed
  qed
qed

lemma readOutputs_malformed:
  assumes "bad \<in> set as" and "count_list bad (CHR ''!'') \<noteq> 1"
  shows "\<exists>e cs. fst (readOutputs as c) = Inl e \<and>
           calls (snd (readOutputs as c)) = calls c @ cs \<and> Sync \<notin> set cs"
proof -
  obtain r c1 where ld: "loadOutputs as [] c = (r, c1)" by (cases "loadOutputs as [] c")
  have "\<exists>e. r = Inl e"
  proof (cases r)
    case (Inr rs)
    with ld loadOutputs_result [of as "[]" c rs c1] assms parse_malformed [of bad]
    show ?thesis by auto
  qed blast
  then obtain e where e: "r = Inl e" ..
  from loadOutputs_calls [of as "[]" c] ld obtain cs where
    "calls c1 = calls c @ cs" "Sync \<notin> set cs" by auto
  with ld e show ?thesis by (simp add: readOutputs_def bindIO_def)
qed

subsection \<open>What a restore writes\<close>

lemma keeps_restoreState_suite:
  assumes "\<And>call. isRead call \<Longrightarrow> P call"
    and "\<And>k st ws a. (k, st) \<in> set snap \<Longrightarrow>
           parseCellAddress k = Inr \<lparr>worksheetName = ws, cellAddress = a\<rparr> \<Longrightarrow>
           P (restoreWrite ws (a, st))"
  shows "keeps P (restoreState_suite snap)"
proof (cases "groupByWorksheet snap []")
  case (Inl e)
  then show ?thesis by (simp add: restoreState_suite_def)
next
  case (Inr g)
  have "keeps P (restoreSheets_suite g)"
  proof (rule keeps_restoreSheets_suite [OF assms(1)])
    fix ws entry assume "(ws, entry) \<in> entriesOf g"
    with groupByWorksheet_entries [OF Inr] show "P (restoreWrite ws entry)"
      using assms(2) by (cases entry) auto
  qed simp
  then show ?thesis using Inr assms(1)
    by (auto simp: restoreState_suite_def intro!: keeps_bindIO keeps_hostCall)
qed

lemma keeps_restoreState:
  assumes "\<And>call. isRead call \<Longrightarrow> P call"
    and "\<And>k st ws a. (k, st) \<in> set snap \<Longrightarrow>
           parseCellAddress k = Inr \<lparr>worksheetName = ws, cellAddress = a\<rparr> \<Longrightarrow>
           P (restoreWrite ws (a, st))"
  shows "keeps P (restoreState snap)"
proof (cases "groupByWorksheet snap []")
  case (Inl e)
  then show ?thesis by (simp add: restoreState_def)
next
  case (Inr g)
  have "keeps P (restoreSheets g)"
  proof (rule keeps_restoreSheets [OF assms(1)])
    fix ws entry assume "(ws, entry) \<in> entriesOf g"
    with groupByWorksheet_entries [OF Inr] show "P (restoreWrite ws entry)"
      using assms(2) by (cases entry) auto
  qed simp
  then show ?thesis using Inr assms(1)
    by (auto simp: restoreState_def intro!: keeps_bindIO keeps_hostCall)
qed

lemma restoreWrite_SetValues:
  "restoreWrite ws (a, st) = SetValues ws' a' v \<Longrightarrow>
     ws' = ws \<and> a' = a \<and> v = cell_value st \<and> (formula st = None \<or> formula st = Some [])"
  by (auto simp: restoreWrite_def split: option.splits if_splits)

lemma restoreWrite_SetFormulas:
  "restoreWrite ws (a, st) = SetFormulas ws' a' f \<Longrightarrow>
     ws' = ws \<and> a' = a \<and> formula st = Some f \<and> f \<noteq> []"
  by (auto simp: restoreWrite_def split: option.splits if_splits)

lemma restoreWrite_not_Calculate: "restoreWrite ws e \<noteq> Calculate"
  by (auto simp: restoreWrite_def split: option.splits)

lemma written_restoreWrite:
  "written (restoreWrite ws (a, st)) =
     (case formula st of
        None \<Rightarrow> Const (cell_value st)
      | Some f \<Rightarrow> if f \<noteq> [] then Formula f else Const (cell_value st))"
  by (simp add: restoreWrite_def split: option.splits)

lemma restore_entry:
  assumes ent: "(k, st) \<in> set snap" and dist: "distinct (map fst snap)"
    and p: "parseCellAddress k = Inr \<lparr>worksheetName = ws, cellAddress = a\<rparr>"
    and good: "\<forall>k'\<in>fst ` set snap. count_list k' (CHR ''!'') = 1"
  shows "\<exists>g. groupByWorksheet snap [] = Inr g \<and>
           cells (played (restoreTrace g) c) ws a = written (restoreWrite ws (a, st))"
proof -
  have "\<forall>fa\<in>fst ` set snap. \<exists>p. parseCellAddress fa = Inr p"
  proof
    fix fa assume "fa \<in> fst ` set snap"
    with good have "count_list fa (CHR ''!'') = 1" by blast
    then show "\<exists>p. parseCellAddress fa = Inr p"
      using parse_malformed [of fa] by (cases fa rule: parse_cases) auto
  qed
  from groupByWorksheet_good [OF this] obtain g where g: "groupByWorksheet snap [] = Inr g" ..
  have ent_iff: "\<And>ws a st. (ws, a, st) \<in> entriesOf g \<longleftrightarrow> (ws @ ''!'' @ a, st) \<in> set snap \<and>
        parseCellAddress (ws @ ''!'' @ a) = Inr \<lparr>worksheetName = ws, cellAddress = a\<rparr>"
    using groupByWorksheet_entries [OF g] by auto
  from parse_roundtrip [OF p] have k: "k = ws @ ''!'' @ a" by simp
  have in_g: "(ws, a, st) \<in> entriesOf g"
    using ent p k by (simp add: ent_iff)
  have "cells (played (restoreTrace g) c) ws a = written (restoreWrite ws (a, st))"
  proof (rule restored_cell [OF in_g])
    fix st' assume "(ws, a, st') \<in> entriesOf g"
    then have "(k, st') \<in> set snap" using k by (simp add: ent_iff)
    with ent dist show "st' = st" by (meson eq_key_imp_eq_value)
  qed
  with g show ?thesis by blast
qed

subsection \<open>The protected region\<close>

lemma bodyCall_withinCells: "inputKeys tc \<subseteq> A \<Longrightarrow> bodyCall tc call \<Longrightarrow> withinCells A call"
  unfolding bodyCall_def withinCells_def inputKeys_def
  by (auto split: option.splits)

lemma keeps_suiteStep:
  "keeps P (runTestWithoutProtection pf tc) \<Longrightarrow> keeps P (suiteStep pf n i tc acc)"
  unfolding suiteStep_def Let_def
  by (intro keeps_bindIO keeps_tryCatch keeps_consoleLog keeps_retIO)

lemma keeps_runTests:
  "(\<And>tc. tc \<in> set tcs \<Longrightarrow> keeps P (runTestWithoutProtection pf tc)) \<Longrightarrow>
     keeps P (runTests pf n i tcs acc)"
proof (induction tcs arbitrary: i acc)
  case Nil
  then show ?case by simp
next
  case (Cons tc tcs)
  show ?case unfolding runTests.simps
    by (intro keeps_bindIO keeps_suiteStep Cons.IH Cons.prems) simp_all
qed

lemma restoreAfterTest_result:
  "restoreAfterTest snap c =
     (Inr (),
      case fst (restoreState snap c) of
        Inr u \<Rightarrow> snd (restoreState snap c)
      | Inl e \<Rightarrow> (snd (restoreState snap c))
           \<lparr>console := console (snd (restoreState snap c))
              @ [ConsoleError (''Warning: Failed to restore state: '' @ message e) None]\<rparr>)"
  by (cases "restoreState snap c"; cases "fst (restoreState snap c)")
     (auto simp: restoreAfterTest_def tryCatch_def)

lemma restoreAfterSuite_result:
  "restoreAfterSuite (Some snap) c =
     (Inr (),
      case fst (restoreState_suite snap c) of
        Inr u \<Rightarrow> (snd (restoreState_suite snap c))
           \<lparr>console := console (snd (restoreState_suite snap c))
              @ [ConsoleLog ''State restored successfully'' None]\<rparr>
      | Inl e \<Rightarrow> (snd (restoreState_suite snap c))
           \<lparr>console := console (snd (restoreState_suite snap c))
              @ [ConsoleError ''Failed to restore state:'' (Some e)]\<rparr>)"
  by (cases "restoreState_suite snap c"; cases "fst (restoreState_suite snap c)")
     (auto simp: restoreAfterSuite_def tryCatch_def bindIO_def)

lemma runTest_captured:
  assumes "snapshotWorksheetState (addTestAddresses tc []) c = (Inr snap, c1)"
  shows "runTest tc c =
     (fst (runTestBody tc c1), snd (restoreAfterTest snap (snd (runTestBody tc c1))))"
  using assms
  by (cases "runTestBody tc c1")
     (simp add: runTest_def bindIO_def tryCatch_def tryFinally_def restoreAfterTest_result)

lemma region_restores:
  assumes cap: "snapshotWorksheetState as c = (Inr snap, c1)"
    and run: "step (withinCells (set as)) c1 c2"
    and acc: "accepting c2"
    and wf: "\<forall>ws a. cells c ws a \<noteq> Formula []"
  shows "restoreState snap c2 = (Inr (), snd (restoreState snap c2))"
    and "cells (snd (restoreState snap c2)) = cells c"
    and "restoreState_suite snap c2 = (Inr (), snd (restoreState_suite snap c2))"
    and "cells (snd (restoreState_suite snap c2)) = cells c"
proof -
  from restore_all [OF cap run acc] wf obtain g where g: "groupByWorksheet snap [] = Inr g"
    and cs: "cells (played (restoreTrace g) c2) = cells c" by blast
  note r1 = restoreState_accepting [OF acc g] and r2 = restoreState_suite_accepting [OF acc g]
  show "restoreState snap c2 = (Inr (), snd (restoreState snap c2))" by (simp add: r1)
  show "cells (snd (restoreState snap c2)) = cells c" by (simp add: r1 cs)
  show "restoreState_suite snap c2 = (Inr (), snd (restoreState_suite snap c2))" by (simp add: r2)
  show "cells (snd (restoreState_suite snap c2)) = cells c" by (simp add: r2 cs)
qed

lemma runTest_outcome:
  assumes cap: "snapshotWorksheetState (addTestAddresses tc []) c = (Inr snap, c1)"
  shows "fst (runTest tc c) = fst (runTestBody tc c1)"
    and "snd (runTest tc c) =
      (case fst (restoreState snap (snd (runTestBody tc c1))) of
         Inr u \<Rightarrow> snd (restoreState snap (snd (runTestBody tc c1)))
       | Inl e \<Rightarrow> (snd (restoreState snap (snd (runTestBody tc c1))))
            \<lparr>console := console (snd (restoreState snap (snd (runTestBody tc c1))))
               @ [ConsoleError (''Warning: Failed to restore state: '' @ message e) None]\<rparr>)"
  by (simp_all only: runTest_captured [OF cap] restoreAfterTest_result fst_conv snd_conv)

lemma runTest_restored:
  assumes cap: "snapshotWorksheetState (addTestAddresses tc []) c = (Inr snap, c1)"
    and acc: "accepting (snd (runTestBody tc c1))"
    and wf: "\<forall>ws a. cells c ws a \<noteq> Formula []"
  shows "cells (snd (runTest tc c)) = cells c"
proof -
  let ?as = "addTestAddresses tc []"
  let ?c2 = "snd (runTestBody tc c1)"
  have "keeps (withinCells (set ?as)) (runTestBody tc)"
    by (rule keeps_mono [OF keeps_runTestBody])
       (rule bodyCall_withinCells, auto simp: set_addTestAddresses)
  then have stp: "step (withinCells (set ?as)) c1 ?c2" by (simp add: keeps_def)
  note rr = region_restores(1,2) [OF cap stp acc wf]
  have ok: "fst (restoreState snap ?c2) = Inr ()" using rr(1) by (metis fst_conv)
  have "snd (runTest tc c) = snd (restoreAfterTest snap ?c2)"
    by (simp only: runTest_captured [OF cap] snd_conv)
  also have "\<dots> = snd (restoreState snap ?c2)"
    by (simp only: restoreAfterTest_result ok snd_conv sum.case)
  finally show ?thesis by (simp only: rr(2))
qed

lemma runTestSuite_outcome:
  assumes cap: "snapshotWorksheetState (fold addTestAddresses tcs []) c = (Inr snap, c1)"
  shows "\<exists>acc. fst (runTests pf (length tcs) 0 tcs ([], 0) c1) = Inr acc \<and>
           fst (runTestSuite pf tcs c) =
             Inr \<lparr>results = fst acc, passedCount = snd acc, totalCount = length tcs\<rparr>"
    and "snd (runTestSuite pf tcs c) =
      (case fst (restoreState_suite snap (snd (runTests pf (length tcs) 0 tcs ([], 0) c1))) of
         Inr u \<Rightarrow> (snd (restoreState_suite snap (snd (runTests pf (length tcs) 0 tcs ([], 0) c1))))
            \<lparr>console := console (snd (restoreState_suite snap
                                      (snd (runTests pf (length tcs) 0 tcs ([], 0) c1))))
               @ [ConsoleLog ''State restored successfully'' None]\<rparr>
       | Inl e \<Rightarrow> (snd (restoreState_suite snap (snd (runTests pf (length tcs) 0 tcs ([], 0) c1))))
            \<lparr>console := console (snd (restoreState_suite snap
                                      (snd (runTests pf (length tcs) 0 tcs ([], 0) c1))))
               @ [ConsoleError ''Failed to restore state:'' (Some e)]\<rparr>)"
proof -
  obtain rs k c2 where run: "runTests pf (length tcs) 0 tcs ([], 0) c1 = (Inr (rs, k), c2)"
    using runTests_total [of pf "length tcs" 0 tcs "([], 0)" c1] by auto
  note rt = runTestSuite_captured [OF cap run]
  show "\<exists>acc. fst (runTests pf (length tcs) 0 tcs ([], 0) c1) = Inr acc \<and>
           fst (runTestSuite pf tcs c) =
             Inr \<lparr>results = fst acc, passedCount = snd acc, totalCount = length tcs\<rparr>"
    by (rule exI [of _ "(rs, k)"]) (simp only: run rt fst_conv snd_conv simp_thms)
  show "snd (runTestSuite pf tcs c) =
      (case fst (restoreState_suite snap (snd (runTests pf (length tcs) 0 tcs ([], 0) c1))) of
         Inr u \<Rightarrow> (snd (restoreState_suite snap (snd (runTests pf (length tcs) 0 tcs ([], 0) c1))))
            \<lparr>console := console (snd (restoreState_suite snap
                                      (snd (runTests pf (length tcs) 0 tcs ([], 0) c1))))
               @ [ConsoleLog ''State restored successfully'' None]\<rparr>
       | Inl e \<Rightarrow> (snd (restoreState_suite snap (snd (runTests pf (length tcs) 0 tcs ([], 0) c1))))
            \<lparr>console := console (snd (restoreState_suite snap
                                      (snd (runTests pf (length tcs) 0 tcs ([], 0) c1))))
               @ [ConsoleError ''Failed to restore state:'' (Some e)]\<rparr>)"
    by (simp only: run rt restoreAfterSuite_result fst_conv snd_conv)
qed

lemma runTestSuite_restored:
  assumes cap: "snapshotWorksheetState (fold addTestAddresses tcs []) c = (Inr snap, c1)"
    and acc: "accepting (snd (runTests pf (length tcs) 0 tcs ([], 0) c1))"
    and wf: "\<forall>ws a. cells c ws a \<noteq> Formula []"
  shows "cells (snd (runTestSuite pf tcs c)) = cells c"
proof -
  let ?as = "fold addTestAddresses tcs []"
  let ?c2 = "snd (runTests pf (length tcs) 0 tcs ([], 0) c1)"
  have "keeps (withinCells (set ?as)) (runTests pf (length tcs) 0 tcs ([], 0))"
  proof (rule keeps_runTests)
    fix t assume "t \<in> set tcs"
    then have "inputKeys t \<subseteq> set ?as" by (auto simp: set_fold_addTestAddresses)
    then show "keeps (withinCells (set ?as)) (runTestWithoutProtection pf t)"
      by (intro keeps_mono [OF keeps_runTestWithoutProtection] bodyCall_withinCells)
  qed
  then have stp: "step (withinCells (set ?as)) c1 ?c2" by (simp add: keeps_def)
  note rr = region_restores(3,4) [OF cap stp acc wf]
  have ok: "fst (restoreState_suite snap ?c2) = Inr ()" using rr(1) by (metis fst_conv)
  have "cells (snd (runTestSuite pf tcs c)) = cells (snd (restoreState_suite snap ?c2))"
    by (simp add: runTestSuite_outcome(2) [OF cap] ok)
  then show ?thesis by (simp only: rr(2))
qed

subsection \<open>The single-test path, for comparison\<close>

text \<open>What \<^verbatim>\<open>evaluateAssertions\<close> does with two numbers.\<close>

lemma evaluateAssertion_numeric:
  assumes "dictGet outputs (cell a) = Num x" and "equals a = Num y"
  shows "difference (evaluateAssertion outputs a) = Num \<bar>x - y\<bar>"
    and "passed (evaluateAssertion outputs a) \<longleftrightarrow> \<bar>x - y\<bar> \<le> toleranceOr0 a"
  using assms by (simp_all add: evaluateAssertion_def Let_def)

text \<open>What \<^verbatim>\<open>runTest\<close> does when the capture fails: it throws, having made only reads.\<close>

lemma runTest_capture_failure:
  assumes "snapshotWorksheetState (addTestAddresses tc []) c = (Inl e, c1)"
  shows "runTest tc c = (Inl (Error (''Failed to snapshot state: '' @ message e)), c1)"
    and "step isRead c c1" and "cells c1 = cells c"
proof -
  show "runTest tc c = (Inl (Error (''Failed to snapshot state: '' @ message e)), c1)"
    using assms by (simp add: runTest_def bindIO_def tryCatch_def)
  have "keeps isRead (snapshotWorksheetState (addTestAddresses tc []))"
    by (rule keeps_snapshotWorksheetState)
  then show "step isRead c c1" using assms by (auto simp: keeps_def dest!: spec [of _ c])
  then show "cells c1 = cells c" by (rule step_isRead_cells)
qed

section \<open>The claims\<close>

subsection \<open>Evaluation on the examples\<close>

lemmas run_simps =
  bindIO_def tryCatch_def tryFinally_def hostCall_def
  runTestSuite_def snapshotSuite_def snapshotWorksheetState_def addTestAddresses_def setAdd_def
  parseCellAddress_def suiteStep_def runningMessage_def runTestWithoutProtection_def
  applyInputsIfAny_def
  applyInputs_def forceRecalculate_def assertionsOf_def readOutputs_def restoreAfterSuite_def
  errorResult_def nameOr_def restoreState_suite_def restoreCell_def restoreWrite_def runTest_def
  runTestBody_def restoreAfterTest_def restoreState_def evaluateAssertions_def
  evaluateAssertion_def dictGet_def toleranceOr0_def valueOf_def formulaOf_def readState_def
  resultPassed_def convertExpected_def strictEq_def invalidAddress_def Let_def

text \<open>
  Claim C2. Where the actual and the expected value are both numbers, the evaluator is to
  set the difference to \<open>|actual - expected|\<close> and to pass exactly when the difference is
  at most the tolerance, on every path that evaluates assertions. \<^verbatim>\<open>evaluateAssertions\<close>,
  used by \<^verbatim>\<open>runTest\<close>, does so; the loop in \<^verbatim>\<open>runTestWithoutProtection\<close>, used by
  \<^verbatim>\<open>runTestSuite\<close>, compares with \<^verbatim>\<open>===\<close> and never looks at the tolerance. With the
  cell at 100.5, expected 100 and tolerance 0.5 the single test passes and the suite fails
  it.
\<close>

theorem C2_suite_ignores_tolerance:
  "fst (runTest toleranceTest outputDocument) =
     Inr [(''testName'', JString ''within tolerance''), (''passed'', JBool True),
          (''assertionResults'',
           JResults [\<lparr>r_cell = ''Outputs!E12'', expected = Num 100, actual = Num 100.5,
                       r_tolerance = Num 0.5, difference = Num 0.5, passed = True\<rparr>])] \<and>
   fst (runTestSuite parseFloatStub [toleranceTest] outputDocument) =
     Inr \<lparr>results =
            [[(''name'', JString ''within tolerance''), (''passed'', JBool False),
              (''assertionResults'',
               JResults [\<lparr>r_cell = ''Outputs!E12'', expected = Num 100, actual = Num 100.5,
                           r_tolerance = Num 0.5, difference = Num 0.5, passed = False\<rparr>]),
              (''error'', JNull)]],
          passedCount = 0, totalCount = 1\<rparr>"
  by (simp add: run_simps toleranceTest_def outputDocument_def)

text \<open>
  Claim C9. Every result of a suite run is to carry the test's name in a property called
  \<^verbatim>\<open>testName\<close>. The object that \<^verbatim>\<open>runTestWithoutProtection\<close> returns for a test that
  completed has the property \<^verbatim>\<open>name\<close> instead, and no \<^verbatim>\<open>testName\<close>.
\<close>

theorem C9_completed_result_has_no_testName:
  "fst (runTestSuite parseFloatStub [exactTest] outputDocument) =
     Inr \<lparr>results =
            [[(''name'', JString ''exact''), (''passed'', JBool True),
              (''assertionResults'',
               JResults [\<lparr>r_cell = ''Outputs!E12'', expected = Num 100.5, actual = Num 100.5,
                           r_tolerance = Num 0, difference = Num 0, passed = True\<rparr>]),
              (''error'', JNull)]],
          passedCount = 1, totalCount = 1\<rparr> \<and>
   map_of [(''name'', JString ''exact''), (''passed'', JBool True),
              (''assertionResults'',
               JResults [\<lparr>r_cell = ''Outputs!E12'', expected = Num 100.5, actual = Num 100.5,
                           r_tolerance = Num 0, difference = Num 0, passed = True\<rparr>]),
              (''error'', JNull)] ''testName'' = None"
  by (simp add: run_simps exactTest_def outputDocument_def)

text \<open>
  Claim C3. If the snapshot cannot be captured, the run is to stop before anything is
  written or recalculated and to surface the failure. \<^verbatim>\<open>runTestSuite\<close> only logs a warning:
  with one malformed assertion address the capture fails, and the suite still writes the
  input, recalculates, returns a result in which only the test failed, and restores nothing.
\<close>

theorem C3_suite_runs_after_failed_snapshot:
  \<open>fst (snapshotWorksheetState (fold addTestAddresses [typoTest] []) blankDocument) =
     Inl (invalidAddress ''Sheet1B2'') \<and>
   fst (runTestSuite parseFloatStub [typoTest] blankDocument) =
     Inr \<lparr>results =
            [[(''testName'', JString ''typo''), (''passed'', JBool False),
              (''assertionResults'', JResults []),
              (''error'', JString (''Failed to read output from cell "Sheet1B2": ''
                                    @ message (invalidAddress ''Sheet1B2'')))]],
          passedCount = 0, totalCount = 1\<rparr> \<and>
   calls (snd (runTestSuite parseFloatStub [typoTest] blankDocument)) =
     [GetItem ''Sheet1'', GetRange ''Sheet1'' ''A1'', SetValues ''Sheet1'' ''A1'' (Num 5), Sync,
      Calculate, Sync] \<and>
   cells blankDocument ''Sheet1'' ''A1'' = Const (Num 0) \<and>
   cells (snd (runTestSuite parseFloatStub [typoTest] blankDocument)) ''Sheet1'' ''A1'' =
     Const (Num 5)\<close>
  by (simp add: run_simps typoTest_def blankDocument_def)

text \<open>
  Claim C5. A failure while restoring one cell is not to stop the restoration of the other
  cells, on the same sheet or on others. In \<^verbatim>\<open>src/scripts/test-runner.js\<close> the \<^verbatim>\<open>try\<close>
  encloses the whole sheet: when the host refuses the range of the first cell, the second
  cell of the sheet is never attempted. The version in \<^verbatim>\<open>src/unnamed/part_005\<close> goes on
  to it.
\<close>

theorem C5_restoreState_skips_rest_of_sheet:
  "calls (snd (restoreState twoCells lockedDocument)) =
     [GetItem ''Sheet1'', GetRange ''Sheet1'' ''A1'', Sync] \<and>
   cells (snd (restoreState twoCells lockedDocument)) ''Sheet1'' ''B1'' = Const (Num 0) \<and>
   calls (snd (restoreState_suite twoCells lockedDocument)) =
     [GetItem ''Sheet1'', GetRange ''Sheet1'' ''A1'', GetRange ''Sheet1'' ''B1'',
      SetValues ''Sheet1'' ''B1'' (Num 2), Sync] \<and>
   cells (snd (restoreState_suite twoCells lockedDocument)) ''Sheet1'' ''B1'' = Const (Num 2)"
  by (simp add: run_simps twoCells_def lockedDocument_def)

subsection \<open>The suite\<close>

text \<open>
  Claim C4. For a suite of \<open>n\<close> tests \<^verbatim>\<open>runTestSuite\<close> returns a result whose
  \<^verbatim>\<open>results\<close> has exactly \<open>n\<close> entries, in the order of the tests. The entry of test \<open>i\<close>
  is what \<^verbatim>\<open>runTestWithoutProtection\<close> returns for it, in the context left by the tests
  before it; if that call throws, the entry has \<^verbatim>\<open>passed\<close> false, no assertion results and
  the message of the error, and the tests after it are run all the same.
\<close>

theorem C4_suite_reports_every_test:
  "\<exists>sr cf. runTestSuite pf tcs c = (Inr sr, cf) \<and>
     length (results sr) = length tcs \<and> totalCount sr = length tcs \<and>
     (\<forall>i<length tcs.
        case runTestWithoutProtection pf (tcs ! i)
               (testContext pf (length tcs) tcs i (snd (snapshotSuite tcs c))) of
          (Inr r, c') \<Rightarrow> results sr ! i = r
        | (Inl e, c') \<Rightarrow>
            results sr ! i =
              [(''testName'', JString (nameOr (name (tcs ! i)) (''Test '' @ showNat (i + 1)))),
               (''passed'', JBool False), (''assertionResults'', JResults []),
               (''error'', JString (message e))])"
proof -
  obtain snapshot c0 where s: "snapshotSuite tcs c = (Inr snapshot, c0)"
    using snapshotSuite_total by blast
  obtain rs k c1 where r: "runTests pf (length tcs) 0 tcs ([], 0) c0 = (Inr (rs, k), c1)"
    "length rs = length tcs"
    using runTests_total [of pf "length tcs" 0 tcs "([], 0)" c0] by auto
  obtain c2 where f: "restoreAfterSuite snapshot c1 = (Inr (), c2)"
    using restoreAfterSuite_total by blast
  let ?sr = "\<lparr>results = rs, passedCount = k, totalCount = length tcs\<rparr>"
  have run: "runTestSuite pf tcs c = (Inr ?sr, c2)"
    using s r f by (simp add: runTestSuite_def bindIO_def tryFinally_def)
  have "case runTestWithoutProtection pf (tcs ! i)
               (testContext pf (length tcs) tcs i (snd (snapshotSuite tcs c))) of
          (Inr r, c') \<Rightarrow> results ?sr ! i = r
        | (Inl e, c') \<Rightarrow>
            results ?sr ! i =
              [(''testName'', JString (nameOr (name (tcs ! i)) (''Test '' @ showNat (i + 1)))),
               (''passed'', JBool False), (''assertionResults'', JResults []),
               (''error'', JString (message e))]" if "i < length tcs" for i
    using runTests_nth [OF that r(1)] s
    by (simp add: errorResult_def split: prod.splits sum.splits)
  with run r(2) show ?thesis by auto
qed

theorem C4_witness:
  \<open>(1::nat) < length [exactTest, typoTest, toleranceTest] \<and>
   fst (runTestSuite parseFloatStub [exactTest, typoTest, toleranceTest] outputDocument) =
     Inr \<lparr>results =
            [[(''name'', JString ''exact''), (''passed'', JBool True),
              (''assertionResults'',
               JResults [\<lparr>r_cell = ''Outputs!E12'', expected = Num 100.5, actual = Num 100.5,
                           r_tolerance = Num 0, difference = Num 0, passed = True\<rparr>]),
              (''error'', JNull)],
             [(''testName'', JString ''typo''), (''passed'', JBool False),
              (''assertionResults'', JResults []),
              (''error'', JString (''Failed to read output from cell "Sheet1B2": ''
                                    @ message (invalidAddress ''Sheet1B2'')))],
             [(''name'', JString ''within tolerance''), (''passed'', JBool False),
              (''assertionResults'',
               JResults [\<lparr>r_cell = ''Outputs!E12'', expected = Num 100, actual = Num 100.5,
                           r_tolerance = Num 0.5, difference = Num 0.5, passed = False\<rparr>]),
              (''error'', JNull)]],
          passedCount = 1, totalCount = 3\<rparr>\<close>
  using C4_suite_reports_every_test
    [of parseFloatStub "[exactTest, typoTest, toleranceTest]" outputDocument]
  by (simp add: run_simps exactTest_def typoTest_def toleranceTest_def outputDocument_def)

text \<open>
  Claim C10. In the suite path, when the cell of an assertion holds a boolean and the
  expected value is not a string, the call of \<^verbatim>\<open>toLowerCase\<close> throws a \<^verbatim>\<open>TypeError\<close>:
  the test never returns a result, and the suite records it as failed, with no assertion
  results and the message of the error.
\<close>

theorem C10_boolean_actual_needs_string_expected:
  assumes "assertions tc = Some asserts" and "a \<in> set asserts" and "\<not> isString (equals a)"
    and "parseCellAddress (cell a) = Inr \<lparr>worksheetName = ws, cellAddress = la\<rparr>"
    and "runTestWithoutProtection pf tc
           (c\<lparr>console := console c @ [ConsoleLog (runningMessage n i tc) None]\<rparr>) = (r, c')"
    and "isBoolean (valueOf c' ws la)"
  shows "(\<exists>m. convertExpected pf (valueOf c' ws la) (equals a) = Inl (TypeError m)) \<and>
     (\<exists>e. r = Inl e \<and>
        fst (suiteStep pf n i tc acc c) =
          Inr (fst acc @ [[(''testName'', JString (nameOr (name tc) (''Test '' @ showNat (i + 1)))),
                           (''passed'', JBool False), (''assertionResults'', JResults []),
                           (''error'', JString (message e))]], snd acc))"
proof
  show "\<exists>m. convertExpected pf (valueOf c' ws la) (equals a) = Inl (TypeError m)"
    using assms(3,6) by (rule convertExpected_boolean [rotated])
  from runTestWithoutProtection_boolean [OF assms] obtain e where e: "r = Inl e" ..
  have "fst (suiteStep pf n i tc acc c) =
          Inr (fst acc @ [errorResult (nameOr (name tc) (''Test '' @ showNat (i + 1))) e], snd acc)"
    by (simp add: suiteStep_result assms(5) e)
  with e show "\<exists>e. r = Inl e \<and>
        fst (suiteStep pf n i tc acc c) =
          Inr (fst acc @ [[(''testName'', JString (nameOr (name tc) (''Test '' @ showNat (i + 1)))),
                           (''passed'', JBool False), (''assertionResults'', JResults []),
                           (''error'', JString (message e))]], snd acc)"
    by (simp add: errorResult_def)
qed

theorem C10_witness:
  "assertions booleanTest = Some [\<lparr>cell = ''Flags!A1'', equals = Bool True, tolerance = None\<rparr>] \<and>
   parseCellAddress ''Flags!A1'' = Inr \<lparr>worksheetName = ''Flags'', cellAddress = ''A1''\<rparr> \<and>
   \<not> isString (Bool True) \<and>
   isBoolean (valueOf (snd (runTestWithoutProtection parseFloatStub booleanTest
       (booleanDocument\<lparr>console := console booleanDocument
           @ [ConsoleLog (runningMessage 1 0 booleanTest) None]\<rparr>))) ''Flags'' ''A1'') \<and>
   fst (suiteStep parseFloatStub 1 0 booleanTest ([], 0) booleanDocument) =
     Inr ([[(''testName'', JString ''flag''), (''passed'', JBool False),
            (''assertionResults'', JResults []),
            (''error'', JString ''expectedValue.toLowerCase is not a function'')]], 0)"
  using C10_boolean_actual_needs_string_expected
    [of booleanTest "[\<lparr>cell = ''Flags!A1'', equals = Bool True, tolerance = None\<rparr>]"
        "\<lparr>cell = ''Flags!A1'', equals = Bool True, tolerance = None\<rparr>" "''Flags''" "''A1''"
        parseFloatStub booleanDocument 1 0
        "fst (runTestWithoutProtection parseFloatStub booleanTest
           (booleanDocument\<lparr>console := console booleanDocument
              @ [ConsoleLog (runningMessage 1 0 booleanTest) None]\<rparr>))"
        "snd (runTestWithoutProtection parseFloatStub booleanTest
           (booleanDocument\<lparr>console := console booleanDocument
              @ [ConsoleLog (runningMessage 1 0 booleanTest) None]\<rparr>))" "([], 0)"]
  by (simp add: run_simps booleanTest_def booleanDocument_def)

subsection \<open>The protected addresses and malformed addresses\<close>






subsection \<open>Restoring\<close>

text \<open>
  Claim C6. For every entry of the snapshot, restore writes the captured formula to the
  cell exactly when the formula is non-empty, and the captured value otherwise. Whatever the
  host does, every assignment to \<^verbatim>\<open>range.values\<close> made by the restore is the value of an
  entry without formula and every assignment to \<^verbatim>\<open>range.formulas\<close> is the non-empty
  formula of an entry; and when the host accepts the calls, the cell of each entry holds its
  formula afterwards if it had one and its value if it had none. Both versions of
  \<^verbatim>\<open>restoreState\<close> then do the same.
\<close>

theorem C6_restore_writes_formula_or_value:
  assumes "(k, st) \<in> set snap" and "distinct (map fst snap)"
    and "parseCellAddress k = Inr \<lparr>worksheetName = ws, cellAddress = a\<rparr>"
  shows
    "(\<exists>cs. calls (snd (restoreState_suite snap c)) = calls c @ cs \<and>
        (\<forall>x\<in>set cs.
           (\<forall>ws' a' v. x = SetValues ws' a' v \<longrightarrow>
              (\<exists>k' st'. (k', st') \<in> set snap \<and>
                 parseCellAddress k' = Inr \<lparr>worksheetName = ws', cellAddress = a'\<rparr> \<and>
                 v = cell_value st' \<and> (formula st' = None \<or> formula st' = Some []))) \<and>
           (\<forall>ws' a' f. x = SetFormulas ws' a' f \<longrightarrow>
              (\<exists>k' st'. (k', st') \<in> set snap \<and>
                 parseCellAddress k' = Inr \<lparr>worksheetName = ws', cellAddress = a'\<rparr> \<and>
                 formula st' = Some f \<and> f \<noteq> [])))) \<and>
     (accepting c \<and> (\<forall>k'\<in>fst ` set snap. count_list k' (CHR ''!'') = 1) \<longrightarrow>
        fst (restoreState_suite snap c) = Inr () \<and>
        cells (snd (restoreState_suite snap c)) ws a =
          (case formula st of
             None \<Rightarrow> Const (cell_value st)
           | Some f \<Rightarrow> if f \<noteq> [] then Formula f else Const (cell_value st)) \<and>
        restoreState snap c = restoreState_suite snap c)"
proof (intro conjI impI)
  let ?P = "\<lambda>call. isRead call \<or>
     (\<exists>k st ws a. (k, st) \<in> set snap \<and>
        parseCellAddress k = Inr \<lparr>worksheetName = ws, cellAddress = a\<rparr> \<and>
        call = restoreWrite ws (a, st))"
  have "keeps ?P (restoreState_suite snap)"
    by (rule keeps_restoreState_suite) blast+
  then obtain cs where cs: "calls (snd (restoreState_suite snap c)) = calls c @ cs"
    "\<forall>x\<in>set cs. ?P x"
    unfolding keeps_def step_def by blast
  have "(\<forall>ws' a' v. x = SetValues ws' a' v \<longrightarrow>
              (\<exists>k' st'. (k', st') \<in> set snap \<and>
                 parseCellAddress k' = Inr \<lparr>worksheetName = ws', cellAddress = a'\<rparr> \<and>
                 v = cell_value st' \<and> (formula st' = None \<or> formula st' = Some []))) \<and>
           (\<forall>ws' a' f. x = SetFormulas ws' a' f \<longrightarrow>
              (\<exists>k' st'. (k', st') \<in> set snap \<and>
                 parseCellAddress k' = Inr \<lparr>worksheetName = ws', cellAddress = a'\<rparr> \<and>
                 formula st' = Some f \<and> f \<noteq> []))" if x: "x \<in> set cs" for x
  proof (intro conjI allI impI)
    fix ws' a' v assume v: "x = SetValues ws' a' v"
    with cs(2) x obtain k' st' ws'' a'' where e: "(k', st') \<in> set snap"
      "parseCellAddress k' = Inr \<lparr>worksheetName = ws'', cellAddress = a''\<rparr>"
      "restoreWrite ws'' (a'', st') = SetValues ws' a' v"
      by fastforce
    from restoreWrite_SetValues [OF e(3)] e(1,2)
    show "\<exists>k' st'. (k', st') \<in> set snap \<and>
                 parseCellAddress k' = Inr \<lparr>worksheetName = ws', cellAddress = a'\<rparr> \<and>
                 v = cell_value st' \<and> (formula st' = None \<or> formula st' = Some [])"
      by blast
  next
    fix ws' a' f assume f: "x = SetFormulas ws' a' f"
    with cs(2) x obtain k' st' ws'' a'' where e: "(k', st') \<in> set snap"
      "parseCellAddress k' = Inr \<lparr>worksheetName = ws'', cellAddress = a''\<rparr>"
      "restoreWrite ws'' (a'', st') = SetFormulas ws' a' f"
      by fastforce
    from restoreWrite_SetFormulas [OF e(3)] e(1,2)
    show "\<exists>k' st'. (k', st') \<in> set snap \<and>
                 parseCellAddress k' = Inr \<lparr>worksheetName = ws', cellAddress = a'\<rparr> \<and>
                 formula st' = Some f \<and> f \<noteq> []"
      by blast
  qed
  with cs(1) show "\<exists>cs. calls (snd (restoreState_suite snap c)) = calls c @ cs \<and>
        (\<forall>x\<in>set cs.
           (\<forall>ws' a' v. x = SetValues ws' a' v \<longrightarrow>
              (\<exists>k' st'. (k', st') \<in> set snap \<and>
                 parseCellAddress k' = Inr \<lparr>worksheetName = ws', cellAddress = a'\<rparr> \<and>
                 v = cell_value st' \<and> (formula st' = None \<or> formula st' = Some []))) \<and>
           (\<forall>ws' a' f. x = SetFormulas ws' a' f \<longrightarrow>
              (\<exists>k' st'. (k', st') \<in> set snap \<and>
                 parseCellAddress k' = Inr \<lparr>worksheetName = ws', cellAddress = a'\<rparr> \<and>
                 formula st' = Some f \<and> f \<noteq> [])))"
    by blast
next
  assume h: "accepting c \<and> (\<forall>k'\<in>fst ` set snap. count_list k' (CHR ''!'') = 1)"
  from restore_entry [OF assms] h obtain g where g: "groupByWorksheet snap [] = Inr g"
    and w: "cells (played (restoreTrace g) c) ws a = written (restoreWrite ws (a, st))"
    by blast
  from h have acc: "accepting c" ..
  note r1 = restoreState_suite_accepting [OF acc g] and r2 = restoreState_accepting [OF acc g]
  show "fst (restoreState_suite snap c) = Inr ()" by (simp add: r1)
  show "cells (snd (restoreState_suite snap c)) ws a =
          (case formula st of
             None \<Rightarrow> Const (cell_value st)
           | Some f \<Rightarrow> if f \<noteq> [] then Formula f else Const (cell_value st))"
    by (simp add: r1 w written_restoreWrite)
  show "restoreState snap c = restoreState_suite snap c" by (simp add: r1 r2)
qed

theorem C6_witness:
  "(''Sheet1!A1'', \<lparr>cell_value = Num 3, formula = Some ''=B1+1''\<rparr>) \<in> set formulaSnapshot \<and>
   distinct (map fst formulaSnapshot) \<and>
   parseCellAddress ''Sheet1!A1'' = Inr \<lparr>worksheetName = ''Sheet1'', cellAddress = ''A1''\<rparr> \<and>
   accepting blankDocument \<and>
   calls (snd (restoreState_suite formulaSnapshot blankDocument)) =
     [GetItem ''Sheet1'', GetRange ''Sheet1'' ''A1'', SetFormulas ''Sheet1'' ''A1'' ''=B1+1'',
      GetRange ''Sheet1'' ''B1'', SetValues ''Sheet1'' ''B1'' (Num 2), Sync] \<and>
   cells (snd (restoreState_suite formulaSnapshot blankDocument)) ''Sheet1'' ''A1'' =
     Formula ''=B1+1'' \<and>
   cells (snd (restoreState_suite formulaSnapshot blankDocument)) ''Sheet1'' ''B1'' =
     Const (Num 2)"
  using C6_restore_writes_formula_or_value
    [of "''Sheet1!A1''" "\<lparr>cell_value = Num 3, formula = Some ''=B1+1''\<rparr>" formulaSnapshot
        "''Sheet1''" "''A1''" blankDocument]
  by (simp add: run_simps formulaSnapshot_def blankDocument_def accepting_def)




end
